theory Spec2Isabelle
  imports Main "HOL-Library.Word"
begin

section \<open>Data model of cmd/traffic/cmd/manager/state/session.go\<close>

text \<open>
  A \<open>tunnel.ConnID\<close> is a byte string. A Go channel is a reference: it is modelled by
  the index of the \<open>make(chan ...)\<close> that created it, so that two channels are the same
  object exactly when their indices are equal.
\<close>

type_synonym ConnID = string
type_synonym chan = nat

text \<open>
  The part of \<open>tunnel.Stream\<close> that session.go reads: \<open>ID()\<close>, \<open>SessionID()\<close>,
  \<open>DialTimeout()\<close> and \<open>RoundtripLatency()\<close>. The last two are \<open>time.Duration\<close>,
  an int64 count of nanoseconds.
\<close>

record Stream =
  ID :: ConnID
  SessionID :: string
  DialTimeout :: "64 word"
  RoundtripLatency :: "64 word"

text \<open>
  \<open>type awaitingBidiPipe struct\<close>. The \<open>ctx\<close> field only carries tracing spans and is
  left out, as are all spans.
\<close>

record awaitingBidiPipe =
  stream :: Stream
  bidiPipeCh :: chan

text \<open>
  \<open>type sessionState struct\<close>. \<open>doneCh\<close> is \<open>True\<close> once the channel returned by
  \<open>Done()\<close> is closed, which is what \<open>ss.cancel()\<close> does. \<open>awaitingBidiPipeMap\<close> is
  \<open>None\<close> while the Go map is nil. \<open>dials_closed\<close> tells whether the unbuffered
  channel \<open>dials\<close> has been closed.
\<close>

record sessionState =
  doneCh :: bool
  lastMarked :: int
  awaitingBidiPipeMap :: "(ConnID \<rightharpoonup> awaitingBidiPipe) option"
  dials_closed :: bool

text \<open>\<open>newSessionState\<close>: the map is left nil, \<open>dials\<close> is a fresh open channel.\<close>

definition newSessionState :: "int \<Rightarrow> sessionState" where
  "newSessionState now =
     \<lparr>doneCh = False, lastMarked = now, awaitingBidiPipeMap = None, dials_closed = False\<rparr>"

text \<open>Reading \<open>ss.awaitingBidiPipeMap[id]\<close>; a nil map has no entries.\<close>

definition map_lookup :: "'a sessionState_scheme \<Rightarrow> ConnID \<Rightarrow> awaitingBidiPipe option" where
  "map_lookup ss cid = (case awaitingBidiPipeMap ss of None \<Rightarrow> None | Some m \<Rightarrow> m cid)"

text \<open>
  Lines 59-65 of \<open>EstablishBidiPipe\<close>, the section under the session lock: a nil map is
  replaced by a one-entry map, otherwise the entry is assigned.
\<close>

definition EstablishBidiPipe_register ::
    "ConnID \<Rightarrow> awaitingBidiPipe \<Rightarrow> 'a sessionState_scheme \<Rightarrow> 'a sessionState_scheme" where
  "EstablishBidiPipe_register cid abp ss =
     (case awaitingBidiPipeMap ss of
        None \<Rightarrow> ss\<lparr>awaitingBidiPipeMap := Some [cid \<mapsto> abp]\<rparr>
      | Some m \<Rightarrow> ss\<lparr>awaitingBidiPipeMap := Some (m(cid \<mapsto> abp))\<rparr>)"

text \<open>
  \<open>AwaitingBidiMapOwnerSessionID\<close> (lines 102-109). It takes and releases the lock and
  assigns nothing; the session state is returned beside the string to say so.
\<close>

definition AwaitingBidiMapOwnerSessionID ::
    "'a sessionState_scheme \<Rightarrow> Stream \<Rightarrow> string \<times> 'a sessionState_scheme" where
  "AwaitingBidiMapOwnerSessionID ss strm =
     (case map_lookup ss (ID strm) of
        Some abp \<Rightarrow> (SessionID (stream abp), ss)
      | None \<Rightarrow> ('''', ss))"

text \<open>
  Lines 124-130 of \<open>OnConnect\<close>, the section under the session lock: look the entry up
  and delete it when present. The result is \<open>abp\<close> (\<open>None\<close> when \<open>ok\<close> is false) and
  the session state.
\<close>

definition OnConnect_take ::
    "ConnID \<Rightarrow> 'a sessionState_scheme \<Rightarrow> awaitingBidiPipe option \<times> 'a sessionState_scheme" where
  "OnConnect_take cid ss =
     (case map_lookup ss cid of
        Some abp \<Rightarrow>
          (Some abp,
           ss\<lparr>awaitingBidiPipeMap := map_option (\<lambda>m. m(cid := None)) (awaitingBidiPipeMap ss)\<rparr>)
      | None \<Rightarrow> (None, ss))"

section \<open>Cancel\<close>

text \<open>
  A Go run-time panic. \<open>close\<close> of a closed channel and a send on a closed channel
  are the two that session.go can raise.
\<close>

datatype panic = close_of_closed_channel | send_on_closed_channel

text \<open>
  A statement either completes, or panics in the state it has reached. \<open>exec\<close> runs
  statements in program order and stops at the first panic; it returns the panic, if any,
  and the state after each statement that was run. \<open>run_stmts\<close> keeps the last state.
\<close>

type_synonym 's stmt = "'s \<Rightarrow> panic option \<times> 's"

fun exec :: "'s stmt list \<Rightarrow> 's \<Rightarrow> panic option \<times> 's list" where
  "exec [] s = (None, [])"
| "exec (f # fs) s =
     (case f s of
        (Some p, s1) \<Rightarrow> (Some p, [s1])
      | (None, s1) \<Rightarrow> (case exec fs s1 of (r, tr) \<Rightarrow> (r, s1 # tr)))"

definition run_stmts :: "'s stmt list \<Rightarrow> 's \<Rightarrow> panic option \<times> 's" where
  "run_stmts fs s = (case exec fs s of (r, tr) \<Rightarrow> (r, last (s # tr)))"

text \<open>
  Line 159, \<open>ss.cancel()\<close>: the \<open>context.CancelFunc\<close> closes the done channel; calling
  it again does nothing.
\<close>

definition cancel_ctx :: "('a sessionState_scheme) stmt" where
  "cancel_ctx ss = (None, ss\<lparr>doneCh := True\<rparr>)"

text \<open>Line 160, \<open>close(ss.dials)\<close>.\<close>

definition close_dials :: "('a sessionState_scheme) stmt" where
  "close_dials ss =
     (if dials_closed ss then (Some close_of_closed_channel, ss)
      else (None, ss\<lparr>dials_closed := True\<rparr>))"

text \<open>
  \<open>func (ss *sessionState) Cancel()\<close>, lines 158-161. \<open>clientSessionState\<close> embeds
  \<open>sessionState\<close> and has no \<open>Cancel\<close> of its own, so this is also the client's.
\<close>

definition sessionState_Cancel ::
    "'a sessionState_scheme \<Rightarrow> panic option \<times> 'a sessionState_scheme" where
  "sessionState_Cancel ss = run_stmts [cancel_ctx, close_dials] ss"

text \<open>
  \<open>type agentSessionState struct\<close>: the embedded \<open>sessionState\<close>, the channel
  \<open>dnsRequests\<close> (closed or not) and the map \<open>dnsResponses\<close> from request id to a
  response channel. \<open>closed_chans\<close> is the set of response channels that are closed.
\<close>

record agentSessionState = sessionState +
  dnsRequests_closed :: bool
  dnsResponses :: "string \<rightharpoonup> chan"
  closed_chans :: "chan set"

text \<open>\<open>newAgentSessionState\<close>.\<close>

definition newAgentSessionState :: "int \<Rightarrow> agentSessionState" where
  "newAgentSessionState ts =
     \<lparr>doneCh = False, lastMarked = ts, awaitingBidiPipeMap = None, dials_closed = False,
      dnsRequests_closed = False, dnsResponses = Map.empty, closed_chans = {}\<rparr>"

text \<open>Line 222, \<open>close(ss.dnsRequests)\<close>.\<close>

definition close_dnsRequests :: "agentSessionState stmt" where
  "close_dnsRequests s =
     (if dnsRequests_closed s then (Some close_of_closed_channel, s)
      else (None, s\<lparr>dnsRequests_closed := True\<rparr>))"

text \<open>
  Lines 224-225, the body of the \<open>range\<close> loop for the key \<open>k\<close>: delete the entry, then
  close its channel. A key that is not in the map is not produced by \<open>range\<close>.
\<close>

definition range_body :: "string \<Rightarrow> agentSessionState stmt" where
  "range_body k s =
     (case dnsResponses s k of
        None \<Rightarrow> (None, s)
      | Some lr \<Rightarrow>
          (let s1 = s\<lparr>dnsResponses := (dnsResponses s)(k := None)\<rparr> in
           if lr \<in> closed_chans s1 then (Some close_of_closed_channel, s1)
           else (None, s1\<lparr>closed_chans := insert lr (closed_chans s1)\<rparr>)))"

text \<open>
  \<open>func (ss *agentSessionState) Cancel()\<close>, lines 221-228, as its statements in program
  order. Go visits the keys of a map in an order it chooses; \<open>ks\<close> is that order.
\<close>

definition agentSessionState_Cancel_stmts :: "string list \<Rightarrow> agentSessionState stmt list" where
  "agentSessionState_Cancel_stmts ks =
     close_dnsRequests # map range_body ks @ [cancel_ctx, close_dials]"

definition agentSessionState_Cancel ::
    "string list \<Rightarrow> agentSessionState \<Rightarrow> panic option \<times> agentSessionState" where
  "agentSessionState_Cancel ks s = run_stmts (agentSessionState_Cancel_stmts ks) s"

text \<open>
  \<open>Cancel\<close> called \<open>k\<close> times in a row: the outcome of the last call and the state it
  leaves. For an agent, \<open>order i\<close> is the key order of the \<open>i\<close>-th call's loop.
\<close>

fun Cancel_times :: "nat \<Rightarrow> 'a sessionState_scheme \<Rightarrow> panic option \<times> 'a sessionState_scheme" where
  "Cancel_times 0 ss = (None, ss)"
| "Cancel_times (Suc k) ss = sessionState_Cancel (snd (Cancel_times k ss))"

fun agent_Cancel_times ::
    "(nat \<Rightarrow> string list) \<Rightarrow> nat \<Rightarrow> agentSessionState \<Rightarrow> panic option \<times> agentSessionState" where
  "agent_Cancel_times order 0 s = (None, s)"
| "agent_Cancel_times order (Suc k) s =
     agentSessionState_Cancel (order k) (snd (agent_Cancel_times order k s))"

section \<open>Calls running concurrently on one session\<close>

text \<open>
  \<open>tunnel.NewBidiPipe(abp.stream, stream, name, counter, tunnelProbes)\<close>: the two
  streams it connects. \<open>pipe_id\<close> is the identity of the object, the number of pipes
  constructed before it.
\<close>

record BidiPipe =
  pipe_a :: Stream
  pipe_b :: Stream
  pipe_id :: nat

text \<open>The two gRPC status codes that session.go returns.\<close>

datatype code = Canceled | DeadlineExceeded

text \<open>
  The \<open>context.Context\<close> that the caller passes to \<open>EstablishBidiPipe\<close>: whether it
  has been cancelled, and its deadline if it has one. Times are nanoseconds.
\<close>

record Context =
  cancelled :: bool
  deadline :: "int option"

definition ctx_Done :: "Context \<Rightarrow> int \<Rightarrow> bool" where
  "ctx_Done ctx t = (cancelled ctx \<or> (case deadline ctx of None \<Rightarrow> False | Some d \<Rightarrow> d \<le> t))"

text \<open>
  Line 90: the duration given to \<open>context.WithTimeout\<close> is the int64 sum
  \<open>stream.DialTimeout()+stream.RoundtripLatency()\<close>, which wraps around.
\<close>

definition wait_window :: "Stream \<Rightarrow> int" where
  "wait_window strm = sint (DialTimeout strm + RoundtripLatency strm)"

text \<open>\<open>rpc.DialRequest\<close> as built in lines 70-74; the trace carrier is left out.\<close>

record DialRequest =
  dr_ConnId :: ConnID
  dr_RoundtripLatency :: "64 word"
  dr_DialTimeout :: "64 word"

definition mk_DialRequest :: "Stream \<Rightarrow> DialRequest" where
  "mk_DialRequest strm =
     \<lparr>dr_ConnId = ID strm, dr_RoundtripLatency = RoundtripLatency strm,
      dr_DialTimeout = DialTimeout strm\<rparr>"

text \<open>
  Where a call of \<open>EstablishBidiPipe\<close> stands: blocked in the select of lines 79-84,
  blocked in the select of lines 92-99 (with the time at which the timeout of line 90
  expires), or returned with \<open>(te, err)\<close>. Each carries the \<open>abp\<close> the call built in
  line 57.
\<close>

datatype est_pc =
    E_select1 awaitingBidiPipe
  | E_select2 awaitingBidiPipe int
  | E_return awaitingBidiPipe "BidiPipe option \<times> code option"

text \<open>
  Where a call of \<open>OnConnect\<close> stands: blocked in the select of lines 150-155 with the
  \<open>abp\<close> it took and the pipe it started, past the send of line 153 with the deferred
  \<open>close\<close> still to run, or returned with \<open>(te, err)\<close>. Each carries the call's stream.
\<close>

datatype onc_pc =
    O_select Stream awaitingBidiPipe BidiPipe
  | O_sent Stream awaitingBidiPipe BidiPipe
  | O_return Stream "BidiPipe option \<times> code option"

text \<open>
  The session and what its calls share: the clock, the number of \<open>bidiPipeCh\<close> channels
  made so far, the set of those that are closed, the pipes constructed and started, the
  DialRequests handed to the peer through \<open>dials\<close>, the calls of \<open>EstablishBidiPipe\<close>
  and of \<open>OnConnect\<close> by call number, the caller's context of each \<open>EstablishBidiPipe\<close>
  call, and the panic that stopped the process, if any.
\<close>

record system =
  sess :: sessionState
  now :: int
  nchan :: nat
  closed_bidiPipeCh :: "chan set"
  pipes :: "BidiPipe list"
  delivered :: "DialRequest list"
  est :: "nat \<rightharpoonup> est_pc"
  onc :: "nat \<rightharpoonup> onc_pc"
  ctxs :: "nat \<Rightarrow> Context"
  panicked :: "panic option"

definition init :: "int \<Rightarrow> system" where
  "init t0 =
     \<lparr>sess = newSessionState t0, now = t0, nchan = 0, closed_bidiPipeCh = {}, pipes = [],
      delivered = [], est = Map.empty, onc = Map.empty,
      ctxs = (\<lambda>_. \<lparr>cancelled = False, deadline = None\<rparr>), panicked = None\<rparr>"

text \<open>\<open>close(abp.bidiPipeCh)\<close>, the deferred call of line 149.\<close>

definition close_bidiPipeCh :: "chan \<Rightarrow> system \<Rightarrow> system" where
  "close_bidiPipeCh ch s =
     (if ch \<in> closed_bidiPipeCh s then s\<lparr>panicked := Some close_of_closed_channel\<rparr>
      else s\<lparr>closed_bidiPipeCh := insert ch (closed_bidiPipeCh s)\<rparr>)"

text \<open>
  Lines 55-65: call \<open>c\<close> of \<open>EstablishBidiPipe(ctx, strm)\<close> makes its channel, builds
  \<open>abp\<close>, registers it under the lock and reaches the first select.
\<close>

definition EstablishBidiPipe_begin :: "nat \<Rightarrow> Context \<Rightarrow> Stream \<Rightarrow> system \<Rightarrow> system option" where
  "EstablishBidiPipe_begin c ctx strm s =
     (if est s c \<noteq> None then None
      else
        (let abp = \<lparr>stream = strm, bidiPipeCh = nchan s\<rparr> in
         Some (s\<lparr>nchan := Suc (nchan s),
                 sess := EstablishBidiPipe_register (ID strm) abp (sess s),
                 est := (est s)(c \<mapsto> E_select1 abp),
                 ctxs := (ctxs s)(c := ctx)\<rparr>)))"

text \<open>Lines 80-82: the case \<open><-ss.Done()\<close> of the first select.\<close>

definition EstablishBidiPipe_select1_Done :: "nat \<Rightarrow> system \<Rightarrow> system option" where
  "EstablishBidiPipe_select1_Done c s =
     (case est s c of
        Some (E_select1 abp) \<Rightarrow>
          (if doneCh (sess s)
           then Some (s\<lparr>est := (est s)(c \<mapsto> E_return abp (None, Some Canceled))\<rparr>)
           else None)
      | _ \<Rightarrow> None)"

text \<open>
  Line 83: the case \<open>ss.dials <- dr\<close> of the first select. On an open channel it is taken
  when the peer receives; the call goes on to line 90, where the timeout starts. On a
  closed channel the case can always be taken, and taking it panics.
\<close>

definition EstablishBidiPipe_select1_send :: "nat \<Rightarrow> system \<Rightarrow> system option" where
  "EstablishBidiPipe_select1_send c s =
     (case est s c of
        Some (E_select1 abp) \<Rightarrow>
          (if dials_closed (sess s) then Some (s\<lparr>panicked := Some send_on_closed_channel\<rparr>)
           else Some (s\<lparr>delivered := delivered s @ [mk_DialRequest (stream abp)],
                        est := (est s)(c \<mapsto>
                                 E_select2 abp (now s + wait_window (stream abp)))\<rparr>))
      | _ \<Rightarrow> None)"

text \<open>
  Lines 93-94: the case \<open><-ctx.Done()\<close> of the second select. The context of line 90 is
  done when its timeout has expired or when the caller's context is done.
\<close>

definition EstablishBidiPipe_select2_ctx_Done :: "nat \<Rightarrow> system \<Rightarrow> system option" where
  "EstablishBidiPipe_select2_ctx_Done c s =
     (case est s c of
        Some (E_select2 abp dl) \<Rightarrow>
          (if dl \<le> now s \<or> ctx_Done (ctxs s c) (now s)
           then Some (s\<lparr>est := (est s)(c \<mapsto> E_return abp (None, Some DeadlineExceeded))\<rparr>)
           else None)
      | _ \<Rightarrow> None)"

text \<open>Lines 95-96: the case \<open><-ss.Done()\<close> of the second select.\<close>

definition EstablishBidiPipe_select2_Done :: "nat \<Rightarrow> system \<Rightarrow> system option" where
  "EstablishBidiPipe_select2_Done c s =
     (case est s c of
        Some (E_select2 abp dl) \<Rightarrow>
          (if doneCh (sess s)
           then Some (s\<lparr>est := (est s)(c \<mapsto> E_return abp (None, Some Canceled))\<rparr>)
           else None)
      | _ \<Rightarrow> None)"

text \<open>
  Lines 97-98 together with line 153: \<open>bidiPipeCh\<close> is unbuffered, so the receive of
  call \<open>c\<close> and the send of the \<open>OnConnect\<close> call \<open>oc\<close> on the same open channel happen
  as one step. The receiver returns the pipe; the sender is past its send.
\<close>

definition EstablishBidiPipe_select2_recv :: "nat \<Rightarrow> nat \<Rightarrow> system \<Rightarrow> system option" where
  "EstablishBidiPipe_select2_recv c oc s =
     (case (est s c, onc s oc) of
        (Some (E_select2 abp dl), Some (O_select strm abp' bidiPipe)) \<Rightarrow>
          (if bidiPipeCh abp' = bidiPipeCh abp \<and> bidiPipeCh abp \<notin> closed_bidiPipeCh s
           then Some (s\<lparr>est := (est s)(c \<mapsto> E_return abp (Some bidiPipe, None)),
                          onc := (onc s)(oc \<mapsto> O_sent strm abp' bidiPipe)\<rparr>)
           else None)
      | _ \<Rightarrow> None)"

text \<open>
  Lines 97-98 on a closed channel: the receive yields the zero value, a nil endpoint, and
  the call returns it with a nil error.
\<close>

definition EstablishBidiPipe_select2_recv_closed :: "nat \<Rightarrow> system \<Rightarrow> system option" where
  "EstablishBidiPipe_select2_recv_closed c s =
     (case est s c of
        Some (E_select2 abp dl) \<Rightarrow>
          (if bidiPipeCh abp \<in> closed_bidiPipeCh s
           then Some (s\<lparr>est := (est s)(c \<mapsto> E_return abp (None, None))\<rparr>)
           else None)
      | _ \<Rightarrow> None)"

text \<open>
  Lines 120-147: call \<open>oc\<close> of \<open>OnConnect\<close> with stream \<open>strm\<close> takes the entry under the
  lock. Without an entry it returns \<open>(nil, nil)\<close> in line 133. With one it constructs the
  pipe, starts it and reaches the select.
\<close>

definition OnConnect_begin :: "nat \<Rightarrow> Stream \<Rightarrow> system \<Rightarrow> system option" where
  "OnConnect_begin oc strm s =
     (if onc s oc \<noteq> None then None
      else
        (case OnConnect_take (ID strm) (sess s) of
           (None, ss') \<Rightarrow> Some (s\<lparr>sess := ss', onc := (onc s)(oc \<mapsto> O_return strm (None, None))\<rparr>)
         | (Some abp, ss') \<Rightarrow>
             (let bidiPipe = \<lparr>pipe_a = stream abp, pipe_b = strm, pipe_id = length (pipes s)\<rparr> in
              Some (s\<lparr>sess := ss', pipes := pipes s @ [bidiPipe],
                      onc := (onc s)(oc \<mapsto> O_select strm abp bidiPipe)\<rparr>))))"

text \<open>Lines 151-152, then the deferred close of line 149.\<close>

definition OnConnect_select_Done :: "nat \<Rightarrow> system \<Rightarrow> system option" where
  "OnConnect_select_Done oc s =
     (case onc s oc of
        Some (O_select strm abp bidiPipe) \<Rightarrow>
          (if doneCh (sess s)
           then Some (close_bidiPipeCh (bidiPipeCh abp)
                        (s\<lparr>onc := (onc s)(oc \<mapsto> O_return strm (None, Some Canceled))\<rparr>))
           else None)
      | _ \<Rightarrow> None)"

text \<open>Line 154 after the send of line 153, then the deferred close of line 149.\<close>

definition OnConnect_return :: "nat \<Rightarrow> system \<Rightarrow> system option" where
  "OnConnect_return oc s =
     (case onc s oc of
        Some (O_sent strm abp bidiPipe) \<Rightarrow>
          Some (close_bidiPipeCh (bidiPipeCh abp)
                  (s\<lparr>onc := (onc s)(oc \<mapsto> O_return strm (Some bidiPipe, None))\<rparr>))
      | _ \<Rightarrow> None)"

text \<open>
  A statement of \<open>Cancel\<close> run on the session of the system. Line 160 runs only after
  line 159 of the same call, that is, with the done channel closed.
\<close>

definition session_stmt :: "sessionState stmt \<Rightarrow> system \<Rightarrow> system" where
  "session_stmt f s =
     (case f (sess s) of
        (None, ss') \<Rightarrow> s\<lparr>sess := ss'\<rparr>
      | (Some p, ss') \<Rightarrow> s\<lparr>sess := ss', panicked := Some p\<rparr>)"

definition Cancel_line159 :: "system \<Rightarrow> system option" where
  "Cancel_line159 s = Some (session_stmt cancel_ctx s)"

definition Cancel_line160 :: "system \<Rightarrow> system option" where
  "Cancel_line160 s = (if doneCh (sess s) then Some (session_stmt close_dials s) else None)"

text \<open>The caller of call \<open>c\<close> cancels the context it passed.\<close>

definition caller_cancel :: "nat \<Rightarrow> system \<Rightarrow> system option" where
  "caller_cancel c s = Some (s\<lparr>ctxs := (ctxs s)(c := (ctxs s c)\<lparr>cancelled := True\<rparr>)\<rparr>)"

text \<open>Time passes.\<close>

definition tick :: "int \<Rightarrow> system \<Rightarrow> system option" where
  "tick d s = (if 0 \<le> d then Some (s\<lparr>now := now s + d\<rparr>) else None)"

text \<open>
  The atomic steps. A step is \<open>None\<close> when it cannot be taken in the state; nothing runs
  after a panic.
\<close>

datatype action =
    Est_begin nat Context Stream
  | Est_select1_Done nat
  | Est_select1_send nat
  | Est_select2_ctx_Done nat
  | Est_select2_Done nat
  | Est_select2_recv nat nat
  | Est_select2_recv_closed nat
  | Onc_begin nat Stream
  | Onc_select_Done nat
  | Onc_return nat
  | Cancel_159
  | Cancel_160
  | Caller_cancel nat
  | Tick int

fun do_action :: "action \<Rightarrow> system \<Rightarrow> system option" where
  "do_action (Est_begin c ctx strm) s = EstablishBidiPipe_begin c ctx strm s"
| "do_action (Est_select1_Done c) s = EstablishBidiPipe_select1_Done c s"
| "do_action (Est_select1_send c) s = EstablishBidiPipe_select1_send c s"
| "do_action (Est_select2_ctx_Done c) s = EstablishBidiPipe_select2_ctx_Done c s"
| "do_action (Est_select2_Done c) s = EstablishBidiPipe_select2_Done c s"
| "do_action (Est_select2_recv c oc) s = EstablishBidiPipe_select2_recv c oc s"
| "do_action (Est_select2_recv_closed c) s = EstablishBidiPipe_select2_recv_closed c s"
| "do_action (Onc_begin oc strm) s = OnConnect_begin oc strm s"
| "do_action (Onc_select_Done oc) s = OnConnect_select_Done oc s"
| "do_action (Onc_return oc) s = OnConnect_return oc s"
| "do_action Cancel_159 s = Cancel_line159 s"
| "do_action Cancel_160 s = Cancel_line160 s"
| "do_action (Caller_cancel c) s = caller_cancel c s"
| "do_action (Tick d) s = tick d s"

definition step :: "action \<Rightarrow> system \<Rightarrow> system option" where
  "step a s = (if panicked s \<noteq> None then None else do_action a s)"

fun run :: "action list \<Rightarrow> system \<Rightarrow> system option" where
  "run [] s = Some s"
| "run (a # as) s = (case step a s of None \<Rightarrow> None | Some s' \<Rightarrow> run as s')"

text \<open>
  The agent state \<open>t\<close> after the entries under the keys \<open>xs\<close> have been deleted from
  \<open>dnsResponses\<close> and their channels closed. It names the states that the loop of lines
  223-226 passes through.
\<close>

definition drained :: "string list \<Rightarrow> agentSessionState \<Rightarrow> agentSessionState" where
  "drained xs t =
     t\<lparr>dnsResponses := (\<lambda>k. if k \<in> set xs then None else dnsResponses t k),
       closed_chans := closed_chans t \<union> {lr. \<exists>k. k \<in> set xs \<and> dnsResponses t k = Some lr}\<rparr>"

section \<open>States used as examples\<close>

text \<open>An agent session with two pending DNS responses.\<close>

definition agent1 :: agentSessionState where
  "agent1 = (newAgentSessionState 0)\<lparr>dnsResponses := [''q1'' \<mapsto> 0, ''q2'' \<mapsto> 1]\<rparr>"

text \<open>Streams and the context of the examples.\<close>

definition strm_ab :: Stream where
  "strm_ab = \<lparr>ID = ''ab'', SessionID = ''client-1'', DialTimeout = 100, RoundtripLatency = 0\<rparr>"

definition strm_ab2 :: Stream where
  "strm_ab2 = \<lparr>ID = ''ab'', SessionID = ''client-1'', DialTimeout = 7, RoundtripLatency = 3\<rparr>"

definition strm_agent :: Stream where
  "strm_agent = \<lparr>ID = ''ab'', SessionID = ''agent:7'', DialTimeout = 0, RoundtripLatency = 0\<rparr>"

definition background :: Context where
  "background = \<lparr>cancelled = False, deadline = None\<rparr>"

text \<open>
  The WaitSlot of the first call, and the system after the call has registered it
  (\<open>sysA\<close>) and after its DialRequest has been handed over (\<open>sysB\<close>); from there,
  the system after the session has been cancelled, after 100 ns have passed, and after the
  call has then timed out. \<open>strm_zz\<close> is a stream whose ConnID nobody waits for.
\<close>

definition abp0 :: awaitingBidiPipe where
  "abp0 = \<lparr>stream = strm_ab, bidiPipeCh = 0\<rparr>"

definition sysA :: system where
  "sysA = (init 0)\<lparr>nchan := 1,
                    sess := (newSessionState 0)\<lparr>awaitingBidiPipeMap := Some [''ab'' \<mapsto> abp0]\<rparr>,
                    est := [0 \<mapsto> E_select1 abp0]\<rparr>"

definition sysB :: system where
  "sysB = sysA\<lparr>delivered := [mk_DialRequest strm_ab], est := [0 \<mapsto> E_select2 abp0 100]\<rparr>"

definition strm_zz :: Stream where
  "strm_zz = \<lparr>ID = ''zz'', SessionID = ''agent:7'', DialTimeout = 0, RoundtripLatency = 0\<rparr>"

definition sysB_cancelled :: system where
  "sysB_cancelled = sysB\<lparr>sess := snd (sessionState_Cancel (sess sysB))\<rparr>"

definition sysB_late :: system where
  "sysB_late = sysB\<lparr>now := 100\<rparr>"

definition sysB_timedout :: system where
  "sysB_timedout = sysB_late\<lparr>est := [0 \<mapsto> E_return abp0 (None, Some DeadlineExceeded)]\<rparr>"

section \<open>Steps in the abstract, and invariants\<close>

text \<open>The \<open>abp\<close> of a call of \<open>EstablishBidiPipe\<close>, wherever the call stands.\<close>

fun est_abp :: "est_pc \<Rightarrow> awaitingBidiPipe" where
  "est_abp (E_select1 w) = w"
| "est_abp (E_select2 w dl) = w"
| "est_abp (E_return w r) = w"

text \<open>
  The pipe that a call of \<open>OnConnect\<close> holds: the one it started, while it has not
  returned, and the one it returned.
\<close>

fun onc_pipe :: "onc_pc \<Rightarrow> BidiPipe option" where
  "onc_pipe (O_select strm w p) = Some p"
| "onc_pipe (O_sent strm w p) = Some p"
| "onc_pipe (O_return strm r) = fst r"

text \<open>Whether a call of \<open>EstablishBidiPipe\<close> has returned a non-nil endpoint.\<close>

fun got_endpoint :: "est_pc \<Rightarrow> bool" where
  "got_endpoint (E_return w (Some p, err)) = True"
| "got_endpoint pc = False"

text \<open>
  What a step does to the calls, the waiting-map, the channel count and the pipes: the
  eight kinds of change that the fourteen actions make to them.
\<close>

inductive moves :: "system \<Rightarrow> system \<Rightarrow> bool" where
  m_begin:
    "est s c = None \<Longrightarrow> w = \<lparr>stream = strm, bidiPipeCh = nchan s\<rparr> \<Longrightarrow>
     est s' = (est s)(c \<mapsto> E_select1 w) \<Longrightarrow>
     map_lookup (sess s') = (map_lookup (sess s))(ID strm \<mapsto> w) \<Longrightarrow>
     nchan s' = Suc (nchan s) \<Longrightarrow> onc s' = onc s \<Longrightarrow> pipes s' = pipes s \<Longrightarrow> moves s s'"
| m_est:
    "est s c = Some pc \<Longrightarrow> \<not> got_endpoint pc \<Longrightarrow> est s' = (est s)(c \<mapsto> pc') \<Longrightarrow>
     est_abp pc' = est_abp pc \<Longrightarrow> \<not> got_endpoint pc' \<Longrightarrow>
     map_lookup (sess s') = map_lookup (sess s) \<Longrightarrow>
     nchan s' = nchan s \<Longrightarrow> onc s' = onc s \<Longrightarrow> pipes s' = pipes s \<Longrightarrow> moves s s'"
| m_recv:
    "est s c = Some (E_select2 abp dl) \<Longrightarrow> onc s oc = Some (O_select strm w p) \<Longrightarrow>
     bidiPipeCh w = bidiPipeCh abp \<Longrightarrow>
     est s' = (est s)(c \<mapsto> E_return abp (Some p, None)) \<Longrightarrow>
     onc s' = (onc s)(oc \<mapsto> O_sent strm w p) \<Longrightarrow>
     map_lookup (sess s') = map_lookup (sess s) \<Longrightarrow>
     nchan s' = nchan s \<Longrightarrow> pipes s' = pipes s \<Longrightarrow> moves s s'"
| m_onc_none:
    "onc s oc = None \<Longrightarrow> onc s' = (onc s)(oc \<mapsto> O_return strm (None, None)) \<Longrightarrow>
     est s' = est s \<Longrightarrow> map_lookup (sess s') = map_lookup (sess s) \<Longrightarrow>
     nchan s' = nchan s \<Longrightarrow> pipes s' = pipes s \<Longrightarrow> moves s s'"
| m_onc_take:
    "onc s oc = None \<Longrightarrow> map_lookup (sess s) (ID strm) = Some w \<Longrightarrow>
     p = \<lparr>pipe_a = stream w, pipe_b = strm, pipe_id = length (pipes s)\<rparr> \<Longrightarrow>
     onc s' = (onc s)(oc \<mapsto> O_select strm w p) \<Longrightarrow>
     map_lookup (sess s') = (map_lookup (sess s))(ID strm := None) \<Longrightarrow>
     pipes s' = pipes s @ [p] \<Longrightarrow> est s' = est s \<Longrightarrow> nchan s' = nchan s \<Longrightarrow> moves s s'"
| m_onc_done:
    "onc s oc = Some (O_select strm w p) \<Longrightarrow>
     onc s' = (onc s)(oc \<mapsto> O_return strm (None, Some Canceled)) \<Longrightarrow>
     est s' = est s \<Longrightarrow> map_lookup (sess s') = map_lookup (sess s) \<Longrightarrow>
     nchan s' = nchan s \<Longrightarrow> pipes s' = pipes s \<Longrightarrow> moves s s'"
| m_onc_return:
    "onc s oc = Some (O_sent strm w p) \<Longrightarrow>
     onc s' = (onc s)(oc \<mapsto> O_return strm (Some p, None)) \<Longrightarrow>
     est s' = est s \<Longrightarrow> map_lookup (sess s') = map_lookup (sess s) \<Longrightarrow>
     nchan s' = nchan s \<Longrightarrow> pipes s' = pipes s \<Longrightarrow> moves s s'"
| m_other:
    "est s' = est s \<Longrightarrow> onc s' = onc s \<Longrightarrow> map_lookup (sess s') = map_lookup (sess s) \<Longrightarrow>
     nchan s' = nchan s \<Longrightarrow> pipes s' = pipes s \<Longrightarrow> moves s s'"

text \<open>
  Invariants of the reachable states. The channel of every call of \<open>EstablishBidiPipe\<close>
  has been made, and two calls never have the same channel.
\<close>

definition inv_est :: "system \<Rightarrow> bool" where
  "inv_est s \<longleftrightarrow>
     (\<forall>c pc. est s c = Some pc \<longrightarrow> bidiPipeCh (est_abp pc) < nchan s)
   \<and> (\<forall>c c' pc pc'. est s c = Some pc \<longrightarrow> est s c' = Some pc' \<longrightarrow>
          bidiPipeCh (est_abp pc) = bidiPipeCh (est_abp pc') \<longrightarrow> c = c')"

text \<open>An entry of the waiting-map is filed under its stream's ConnID and belongs to a call.\<close>

definition inv_map :: "system \<Rightarrow> bool" where
  "inv_map s \<longleftrightarrow>
     (\<forall>k w. map_lookup (sess s) k = Some w \<longrightarrow>
        ID (stream w) = k \<and> (\<exists>c pc. est s c = Some pc \<and> est_abp pc = w))"

text \<open>
  A call of \<open>OnConnect\<close> in its select has a stream with the ConnID of the WaitSlot it
  took, the WaitSlot belongs to a call, and no entry of the map has its channel.
\<close>

definition inv_onc :: "system \<Rightarrow> bool" where
  "inv_onc s \<longleftrightarrow>
     (\<forall>oc strm w p. onc s oc = Some (O_select strm w p) \<longrightarrow>
        ID strm = ID (stream w)
        \<and> (\<exists>c pc. est s c = Some pc \<and> est_abp pc = w)
        \<and> (\<forall>k w'. map_lookup (sess s) k = Some w' \<longrightarrow> bidiPipeCh w' \<noteq> bidiPipeCh w))"

text \<open>The pipes held by calls of \<open>OnConnect\<close> are constructed ones, one per call.\<close>

definition inv_pipe :: "system \<Rightarrow> bool" where
  "inv_pipe s \<longleftrightarrow>
     (\<forall>oc pc p. onc s oc = Some pc \<longrightarrow> onc_pipe pc = Some p \<longrightarrow> pipe_id p < length (pipes s))
   \<and> (\<forall>oc oc' pc pc' p p'. onc s oc = Some pc \<longrightarrow> onc s oc' = Some pc' \<longrightarrow>
          onc_pipe pc = Some p \<longrightarrow> onc_pipe pc' = Some p' \<longrightarrow> pipe_id p = pipe_id p' \<longrightarrow>
          oc = oc')"

text \<open>
  A call of \<open>EstablishBidiPipe\<close> that returned a pipe returned no error, the pipe is
  the one an \<open>OnConnect\<close> call with the same ConnID has sent, and no entry of the map
  has the call's channel.
\<close>

definition inv_ret :: "system \<Rightarrow> bool" where
  "inv_ret s \<longleftrightarrow>
     (\<forall>c w p err. est s c = Some (E_return w (Some p, err)) \<longrightarrow>
        err = None
        \<and> (\<exists>oc strm w'. (onc s oc = Some (O_sent strm w' p)
                           \<or> onc s oc = Some (O_return strm (Some p, None)))
                          \<and> ID strm = ID (stream w))
        \<and> (\<forall>k w'. map_lookup (sess s) k = Some w' \<longrightarrow> bidiPipeCh w' \<noteq> bidiPipeCh w))"

definition inv :: "system \<Rightarrow> bool" where
  "inv s \<longleftrightarrow> inv_est s \<and> inv_map s \<and> inv_onc s \<and> inv_pipe s \<and> inv_ret s"

text \<open>The pipe of the first rendezvous of the examples.\<close>

definition pipe0 :: BidiPipe where
  "pipe0 = \<lparr>pipe_a = strm_ab, pipe_b = strm_agent, pipe_id = 0\<rparr>"

section \<open>AwaitingBidiMapOwnerSessionID\<close>

text \<open>
  C10. For every session state and every stream, \<open>AwaitingBidiMapOwnerSessionID\<close> returns
  the session ID of the stream stored in the waiting-map under the stream's ConnID when
  there is such an entry, and the empty string when there is none; the session state, and
  so the waiting-map, is the one it was called with. The stored stream is the one that
  \<open>EstablishBidiPipe\<close> registered last under that ConnID.
\<close>

theorem AwaitingBidiMapOwnerSessionID_spec:
  "(\<forall>abp. map_lookup ss (ID strm) = Some abp \<longrightarrow>
        fst (AwaitingBidiMapOwnerSessionID ss strm) = SessionID (stream abp))
   \<and> (map_lookup ss (ID strm) = None \<longrightarrow> fst (AwaitingBidiMapOwnerSessionID ss strm) = '''')
   \<and> snd (AwaitingBidiMapOwnerSessionID ss strm) = ss
   \<and> (ID strm = ID (stream w) \<longrightarrow>
        fst (AwaitingBidiMapOwnerSessionID
               (EstablishBidiPipe_register (ID (stream w)) w ss) strm)
        = SessionID (stream w))"
  by (auto simp: AwaitingBidiMapOwnerSessionID_def EstablishBidiPipe_register_def
        map_lookup_def split: option.splits)

theorem AwaitingBidiMapOwnerSessionID_spec_witness:
  "fst (AwaitingBidiMapOwnerSessionID
          (EstablishBidiPipe_register ''ab''
             \<lparr>stream = \<lparr>ID = ''ab'', SessionID = ''client-1'', DialTimeout = 5,
                        RoundtripLatency = 2\<rparr>, bidiPipeCh = 0\<rparr>
             (newSessionState 0))
          \<lparr>ID = ''ab'', SessionID = ''agent:7'', DialTimeout = 0, RoundtripLatency = 0\<rparr>)
     = ''client-1''
   \<and> fst (AwaitingBidiMapOwnerSessionID (newSessionState 0)
          \<lparr>ID = ''ab'', SessionID = ''agent:7'', DialTimeout = 0, RoundtripLatency = 0\<rparr>)
     = ''''"
  using AwaitingBidiMapOwnerSessionID_spec
    [of "newSessionState 0"
        "\<lparr>ID = ''ab'', SessionID = ''agent:7'', DialTimeout = 0, RoundtripLatency = 0\<rparr>"
        "\<lparr>stream = \<lparr>ID = ''ab'', SessionID = ''client-1'', DialTimeout = 5,
                     RoundtripLatency = 2\<rparr>, bidiPipeCh = 0\<rparr>"]
  by (simp add: map_lookup_def newSessionState_def)

section \<open>Cancel, called once and again\<close>

lemma run_stmts_Cons:
  "run_stmts (f # fs) s = (case f s of (Some p, s1) \<Rightarrow> (Some p, s1) | (None, s1) \<Rightarrow> run_stmts fs s1)"
  by (auto simp: run_stmts_def split: prod.splits option.splits)

lemma run_stmts_Nil: "run_stmts [] s = (None, s)"
  by (simp add: run_stmts_def)

lemma sessionState_Cancel_eq:
  "sessionState_Cancel ss =
     (if dials_closed ss then (Some close_of_closed_channel, ss\<lparr>doneCh := True\<rparr>)
      else (None, ss\<lparr>doneCh := True, dials_closed := True\<rparr>))"
  by (simp add: sessionState_Cancel_def run_stmts_Cons run_stmts_Nil cancel_ctx_def close_dials_def)

lemma Cancel_twice:
  "sessionState_Cancel (snd (sessionState_Cancel ss)) = (Some close_of_closed_channel, snd (sessionState_Cancel ss))"
  by (simp add: sessionState_Cancel_eq)

lemma Cancel_times_Suc:
  "Cancel_times (Suc (Suc k)) ss = (Some close_of_closed_channel, snd (sessionState_Cancel ss))"
proof (induction k)
  case 0 show ?case by (simp add: Cancel_twice)
next
  case (Suc k)
  have "Cancel_times (Suc (Suc (Suc k))) ss = sessionState_Cancel (snd (Cancel_times (Suc (Suc k)) ss))" by simp
  also have "\<dots> = sessionState_Cancel (snd (sessionState_Cancel ss))" by (simp only: Suc snd_conv)
  finally show ?case by (simp only: Cancel_twice)
qed

lemma run_stmts_preserves:
  "(\<And>f t. f \<in> set fs \<Longrightarrow> P t \<Longrightarrow> P (snd (f t))) \<Longrightarrow> P s \<Longrightarrow> P (snd (run_stmts fs s))"
proof (induction fs arbitrary: s)
  case Nil
  then show ?case by (simp add: run_stmts_Nil)
next
  case (Cons f fs)
  have step: "P (snd (f s))" using Cons.prems by simp
  show ?case
  proof (cases "f s")
    case (Pair r s1)
    with step have s1: "P s1" by simp
    show ?thesis
    proof (cases r)
      case None
      have "P (snd (run_stmts fs s1))"
        using Cons.IH [of s1] Cons.prems(1) s1 by simp
      with Pair None show ?thesis by (simp add: run_stmts_Cons)
    next
      case (Some p)
      with Pair s1 show ?thesis by (simp add: run_stmts_Cons)
    qed
  qed
qed

lemma range_body_requests: "dnsRequests_closed t \<Longrightarrow> dnsRequests_closed (snd (range_body k t))"
  by (simp add: range_body_def Let_def split: option.splits)

lemma agent_Cancel_closes_requests:
  "dnsRequests_closed (snd (agentSessionState_Cancel ks s))"
proof (cases "dnsRequests_closed s")
  case True
  then show ?thesis
    by (simp add: agentSessionState_Cancel_def agentSessionState_Cancel_stmts_def
          run_stmts_Cons close_dnsRequests_def)
next
  case False
  have "dnsRequests_closed
          (snd (run_stmts (map range_body ks @ [cancel_ctx, close_dials])
                  (s\<lparr>dnsRequests_closed := True\<rparr>)))"
    by (rule run_stmts_preserves)
       (auto simp: range_body_requests cancel_ctx_def close_dials_def)
  with False show ?thesis
    by (simp add: agentSessionState_Cancel_def agentSessionState_Cancel_stmts_def
          run_stmts_Cons close_dnsRequests_def)
qed

lemma agent_Cancel_again:
  "dnsRequests_closed s \<Longrightarrow> agentSessionState_Cancel ks s = (Some close_of_closed_channel, s)"
  by (simp add: agentSessionState_Cancel_def agentSessionState_Cancel_stmts_def
        run_stmts_Cons close_dnsRequests_def)

lemma agent_Cancel_times_Suc:
  "agent_Cancel_times order (Suc (Suc k)) s =
     (Some close_of_closed_channel, snd (agentSessionState_Cancel (order 0) s))"
proof (induction k)
  case 0
  show ?case by (simp add: agent_Cancel_again agent_Cancel_closes_requests)
next
  case (Suc k)
  have "agent_Cancel_times order (Suc (Suc (Suc k))) s =
          agentSessionState_Cancel (order (Suc (Suc k)))
            (snd (agent_Cancel_times order (Suc (Suc k)) s))" by simp
  also have "\<dots> = agentSessionState_Cancel (order (Suc (Suc k)))
                      (snd (agentSessionState_Cancel (order 0) s))"
    by (simp only: Suc snd_conv)
  finally show ?case by (simp only: agent_Cancel_again agent_Cancel_closes_requests)
qed

text \<open>
  C4, as the code has it. For every session, client or agent, and every \<open>k \<ge> 1\<close>, the
  state after \<open>k\<close> calls of \<open>Cancel\<close> is the state after the first call. The second
  and later calls are not silent, though: each of them stops with the panic
  "close of closed channel", the client's at \<open>close(ss.dials)\<close> and the agent's at
  \<open>close(ss.dnsRequests)\<close>.
\<close>
theorem Cancel_repeated:
  "1 \<le> k \<Longrightarrow>
     snd (Cancel_times k ss) = snd (sessionState_Cancel ss)
   \<and> (2 \<le> k \<longrightarrow> fst (Cancel_times k ss) = Some close_of_closed_channel)
   \<and> snd (agent_Cancel_times order k s) = snd (agentSessionState_Cancel (order 0) s)
   \<and> (2 \<le> k \<longrightarrow> fst (agent_Cancel_times order k s) = Some close_of_closed_channel)"
proof (cases k)
  case 0
  assume "1 \<le> k"
  with 0 show ?thesis by simp
next
  case (Suc j)
  show ?thesis
  proof (cases j)
    case 0
    with Suc show ?thesis by simp
  next
    case (Suc i)
    with \<open>k = Suc j\<close> show ?thesis
      by (simp only: Cancel_times_Suc agent_Cancel_times_Suc) simp
  qed
qed

theorem Cancel_repeated_witness:
  "snd (Cancel_times 3 (newSessionState 0)) = snd (sessionState_Cancel (newSessionState 0))
   \<and> fst (Cancel_times 3 (newSessionState 0)) = Some close_of_closed_channel
   \<and> snd (agent_Cancel_times (\<lambda>_. []) 3 (newAgentSessionState 0))
       = snd (agentSessionState_Cancel [] (newAgentSessionState 0))
   \<and> fst (agent_Cancel_times (\<lambda>_. []) 3 (newAgentSessionState 0)) = Some close_of_closed_channel"
  using Cancel_repeated [of 3 "newSessionState 0" "\<lambda>_. []" "newAgentSessionState 0"]
  by simp

text \<open>
  The second call of \<open>Cancel\<close> on a fresh client session, and on a fresh agent session,
  panics, whereas the first one completes.
\<close>

theorem Cancel_second_call_counterexample:
  "fst (sessionState_Cancel (newSessionState 0)) = None
   \<and> fst (sessionState_Cancel (snd (sessionState_Cancel (newSessionState 0))))
       = Some close_of_closed_channel
   \<and> fst (agentSessionState_Cancel [] (newAgentSessionState 0)) = None
   \<and> fst (agentSessionState_Cancel []
            (snd (agentSessionState_Cancel [] (newAgentSessionState 0))))
       = Some close_of_closed_channel"
  by (simp add: sessionState_Cancel_eq newSessionState_def agent_Cancel_again
        agent_Cancel_closes_requests)
     (simp add: agentSessionState_Cancel_def agentSessionState_Cancel_stmts_def run_stmts_Cons
        run_stmts_Nil close_dnsRequests_def cancel_ctx_def close_dials_def
        newAgentSessionState_def)

section \<open>The order of the agent's Cancel\<close>

lemma exec_Cons_None:
  "f s = (None, s1) \<Longrightarrow> exec (f # fs) s = (fst (exec fs s1), s1 # snd (exec fs s1))"
  by (simp split: prod.splits)

lemma range_body_absent: "dnsResponses s k = None \<Longrightarrow> range_body k s = (None, s)"
  by (simp add: range_body_def)

lemma range_body_open:
  "dnsResponses s k = Some lr \<Longrightarrow> lr \<notin> closed_chans s \<Longrightarrow>
   range_body k s = (None, s\<lparr>dnsResponses := (dnsResponses s)(k := None),
                              closed_chans := insert lr (closed_chans s)\<rparr>)"
  by (simp add: range_body_def Let_def)

lemma drained_Nil: "drained [] t = t"
  by (simp add: drained_def)

lemma drained_Cons:
  "dnsResponses t k = Some lr \<Longrightarrow>
   drained (k # xs) t
     = drained xs (t\<lparr>dnsResponses := (dnsResponses t)(k := None),
                      closed_chans := insert lr (closed_chans t)\<rparr>)"
proof -
  assume lr: "dnsResponses t k = Some lr"
  let ?m = "(dnsResponses t)(k := None)"
  have a: "(\<lambda>k'. if k' \<in> set (k # xs) then None else dnsResponses t k')
           = (\<lambda>k'. if k' \<in> set xs then None else ?m k')"
    by (auto simp: fun_eq_iff)
  have b: "closed_chans t \<union> {c. \<exists>k'. k' \<in> set (k # xs) \<and> dnsResponses t k' = Some c}
           = insert lr (closed_chans t) \<union> {c. \<exists>k'. k' \<in> set xs \<and> ?m k' = Some c}"
  proof (intro set_eqI iffI)
    fix c
    assume "c \<in> closed_chans t \<union> {c. \<exists>k'. k' \<in> set (k # xs) \<and> dnsResponses t k' = Some c}"
    then consider "c \<in> closed_chans t" | k' where "k' \<in> set (k # xs)" "dnsResponses t k' = Some c"
      by blast
    then show "c \<in> insert lr (closed_chans t) \<union> {c. \<exists>k'. k' \<in> set xs \<and> ?m k' = Some c}"
    proof cases
      case 1
      then show ?thesis by simp
    next
      case 2
      show ?thesis
      proof (cases "k' = k")
        case True
        with 2 lr show ?thesis by simp
      next
        case False
        with 2 have "k' \<in> set xs \<and> ?m k' = Some c" by simp
        then show ?thesis by blast
      qed
    qed
  next
    fix c
    assume "c \<in> insert lr (closed_chans t) \<union> {c. \<exists>k'. k' \<in> set xs \<and> ?m k' = Some c}"
    then consider "c = lr" | "c \<in> closed_chans t" | k' where "k' \<in> set xs" "?m k' = Some c"
      by blast
    then show "c \<in> closed_chans t \<union> {c. \<exists>k'. k' \<in> set (k # xs) \<and> dnsResponses t k' = Some c}"
    proof cases
      case 1
      with lr have "k \<in> set (k # xs) \<and> dnsResponses t k = Some c" by simp
      then show ?thesis by blast
    next
      case 2
      then show ?thesis by simp
    next
      case 3
      then have "k' \<in> set (k # xs) \<and> dnsResponses t k' = Some c" by (auto split: if_splits)
      then show ?thesis by blast
    qed
  qed
  let ?t1 = "t\<lparr>dnsResponses := ?m, closed_chans := insert lr (closed_chans t)\<rparr>"
  have a': "dnsResponses (drained (k # xs) t) = dnsResponses (drained xs ?t1)"
    unfolding drained_def by (auto simp: fun_eq_iff)
  have b': "closed_chans (drained (k # xs) t) = closed_chans (drained xs ?t1)"
    unfolding drained_def using b by simp
  show ?thesis
    by (rule agentSessionState.equality) (simp_all add: a' b', simp_all add: drained_def)
qed

lemma exec_loop_trace:
  "distinct ks \<Longrightarrow> set ks \<subseteq> dom (dnsResponses t) \<Longrightarrow> inj_on (dnsResponses t) (set ks) \<Longrightarrow>
   (\<forall>k\<in>set ks. \<forall>lr. dnsResponses t k = Some lr \<longrightarrow> lr \<notin> closed_chans t) \<Longrightarrow>
   \<not> dials_closed t \<Longrightarrow>
   exec (map range_body ks @ [cancel_ctx, close_dials]) t
     = (None, map (\<lambda>i. drained (take (Suc i) ks) t) [0..<length ks]
              @ [(drained ks t)\<lparr>doneCh := True\<rparr>,
                 (drained ks t)\<lparr>doneCh := True, dials_closed := True\<rparr>])"
proof (induction ks arbitrary: t)
  case Nil
  then show ?case by (simp add: cancel_ctx_def close_dials_def drained_Nil)
next
  case (Cons k ks)
  from Cons.prems obtain lr where lr: "dnsResponses t k = Some lr" by auto
  with Cons.prems have opn: "lr \<notin> closed_chans t" by auto
  let ?t1 = "t\<lparr>dnsResponses := (dnsResponses t)(k := None),
                 closed_chans := insert lr (closed_chans t)\<rparr>"
  have rb: "range_body k t = (None, ?t1)" using lr opn by (rule range_body_open)
  have k: "k \<notin> set ks" using Cons.prems(1) by simp
  have p1: "distinct ks" using Cons.prems(1) by simp
  have p2: "set ks \<subseteq> dom (dnsResponses ?t1)" using Cons.prems(2) k by auto
  have p3: "inj_on (dnsResponses ?t1) (set ks)"
    using Cons.prems(3) k by (auto simp: inj_on_def)
  have p4: "\<forall>k'\<in>set ks. \<forall>lr'. dnsResponses ?t1 k' = Some lr' \<longrightarrow> lr' \<notin> closed_chans ?t1"
  proof (intro ballI allI impI)
    fix k' lr' assume a: "k' \<in> set ks" "dnsResponses ?t1 k' = Some lr'"
    then have b: "dnsResponses t k' = Some lr'" using k by (auto split: if_splits)
    then have "lr' \<notin> closed_chans t" using Cons.prems(4) a by auto
    moreover have "lr' \<noteq> lr"
    proof
      assume "lr' = lr"
      then have "dnsResponses t k' = dnsResponses t k" using b lr by simp
      then have "k' = k" using Cons.prems(3) a by (auto simp: inj_on_def)
      with a k show False by simp
    qed
    ultimately show "lr' \<notin> closed_chans ?t1" by simp
  qed
  have p5: "\<not> dials_closed ?t1" using Cons.prems(5) by simp
  note ih = Cons.IH [OF p1 p2 p3 p4 p5]
  have d: "\<And>xs. drained (k # xs) t = drained xs ?t1" using lr by (rule drained_Cons)
  have m: "map (\<lambda>i. drained (take (Suc i) (k # ks)) t) [0..<length (k # ks)]
           = ?t1 # map (\<lambda>i. drained (take (Suc i) ks) ?t1) [0..<length ks]"
    by (simp add: map_upt_Suc d drained_Nil del: upt_Suc)
  show ?case
    using exec_Cons_None [of "range_body k" t ?t1 "map range_body ks @ [cancel_ctx, close_dials]"]
      rb ih
    by (simp only: m d list.map append_Cons) simp
qed


lemma drained_requests:
  "drained xs (s\<lparr>dnsRequests_closed := True\<rparr>)
     = s\<lparr>dnsRequests_closed := True,
         dnsResponses := (\<lambda>k. if k \<in> set xs then None else dnsResponses s k),
         closed_chans := closed_chans s \<union> {lr. \<exists>k. k \<in> set xs \<and> dnsResponses s k = Some lr}\<rparr>"
  by (rule agentSessionState.equality) (simp_all add: drained_def cong: if_cong)

lemma drained_all:
  assumes "set ks = dom (dnsResponses s)"
  shows "drained ks (s\<lparr>dnsRequests_closed := True\<rparr>)
     = s\<lparr>dnsRequests_closed := True, dnsResponses := Map.empty,
         closed_chans := closed_chans s \<union> ran (dnsResponses s)\<rparr>"
proof -
  have a: "(\<lambda>k. if k \<in> set ks then None else dnsResponses s k) = Map.empty"
    using assms by (auto simp: fun_eq_iff domIff)
  have b: "{lr. \<exists>k. k \<in> set ks \<and> dnsResponses s k = Some lr} = ran (dnsResponses s)"
    using assms by (auto simp: ran_def)
  show ?thesis by (simp only: drained_requests a b)
qed

lemma close_dnsRequests_open:
  "\<not> dnsRequests_closed s \<Longrightarrow> close_dnsRequests s = (None, s\<lparr>dnsRequests_closed := True\<rparr>)"
  by (simp add: close_dnsRequests_def)

text \<open>
  C9, as the code has it. Take an agent session whose DNS request queue and dial queue are
  open and whose pending DNS response channels are open and pairwise different, and let
  \<open>ks\<close> be the order in which the loop visits the keys of the correlation map, each key
  once. Then \<open>Cancel\<close> runs without a panic through exactly these states, in this order.
  First the request queue is closed, with every pending response channel still open and
  still in the map (state \<open>0\<close>). Then, for \<open>i = 1, ..., length ks\<close>, the entries of the
  first \<open>i\<close> keys of \<open>ks\<close> have been deleted and their channels closed, all others
  being as they were. Then, with the map empty and all its channels closed, the done
  channel is closed, and last the dial queue. The request queue is closed in all of them.
\<close>

theorem agentSessionState_Cancel_order:
  assumes "\<not> dnsRequests_closed s" and "\<not> dials_closed s"
    and "distinct ks" and "set ks = dom (dnsResponses s)"
    and "inj_on (dnsResponses s) (dom (dnsResponses s))"
    and "ran (dnsResponses s) \<inter> closed_chans s = {}"
  shows "exec (agentSessionState_Cancel_stmts ks) s
     = (None,
        map (\<lambda>i. s\<lparr>dnsRequests_closed := True,
                   dnsResponses := (\<lambda>k. if k \<in> set (take i ks) then None else dnsResponses s k),
                   closed_chans := closed_chans s
                     \<union> {lr. \<exists>k. k \<in> set (take i ks) \<and> dnsResponses s k = Some lr}\<rparr>)
            [0..<Suc (length ks)]
        @ [s\<lparr>dnsRequests_closed := True, dnsResponses := Map.empty,
             closed_chans := closed_chans s \<union> ran (dnsResponses s), doneCh := True\<rparr>,
           s\<lparr>dnsRequests_closed := True, dnsResponses := Map.empty,
             closed_chans := closed_chans s \<union> ran (dnsResponses s), doneCh := True,
             dials_closed := True\<rparr>])
   \<and> agentSessionState_Cancel ks s
     = (None,
        s\<lparr>dnsRequests_closed := True, dnsResponses := Map.empty,
          closed_chans := closed_chans s \<union> ran (dnsResponses s), doneCh := True,
          dials_closed := True\<rparr>)"
proof -
  let ?s1 = "s\<lparr>dnsRequests_closed := True\<rparr>"
  have p2: "set ks \<subseteq> dom (dnsResponses ?s1)" using assms(4) by simp
  have p3: "inj_on (dnsResponses ?s1) (set ks)" using assms(4,5) by simp
  have p4: "\<forall>k\<in>set ks. \<forall>lr. dnsResponses ?s1 k = Some lr \<longrightarrow> lr \<notin> closed_chans ?s1"
    using assms(6) by (auto simp: ran_def)
  have p5: "\<not> dials_closed ?s1" using assms(2) by simp
  note loop = exec_loop_trace [OF assms(3) p2 p3 p4 p5]
  have e: "exec (agentSessionState_Cancel_stmts ks) s
           = (None, ?s1 # map (\<lambda>i. drained (take (Suc i) ks) ?s1) [0..<length ks]
                    @ [(drained ks ?s1)\<lparr>doneCh := True\<rparr>,
                       (drained ks ?s1)\<lparr>doneCh := True, dials_closed := True\<rparr>])"
    using exec_Cons_None [of close_dnsRequests s ?s1 "map range_body ks @ [cancel_ctx, close_dials]"]
      close_dnsRequests_open [OF assms(1)] loop
    by (simp add: agentSessionState_Cancel_stmts_def)
  have m: "?s1 # map (\<lambda>i. drained (take (Suc i) ks) ?s1) [0..<length ks]
           = map (\<lambda>i. drained (take i ks) ?s1) [0..<Suc (length ks)]"
    by (simp add: map_upt_Suc drained_Nil del: upt_Suc)
  have t: "exec (agentSessionState_Cancel_stmts ks) s
           = (None, map (\<lambda>i. drained (take i ks) ?s1) [0..<Suc (length ks)]
                    @ [(drained ks ?s1)\<lparr>doneCh := True\<rparr>,
                       (drained ks ?s1)\<lparr>doneCh := True, dials_closed := True\<rparr>])"
    using e m by simp
  have f: "agentSessionState_Cancel ks s
           = (None, (drained ks ?s1)\<lparr>doneCh := True, dials_closed := True\<rparr>)"
    using t by (simp add: agentSessionState_Cancel_def run_stmts_def del: upt_Suc)
  note d = drained_all [OF assms(4)]
  have t': "exec (agentSessionState_Cancel_stmts ks) s
           = (None, map (\<lambda>i. drained (take i ks) ?s1) [0..<Suc (length ks)]
                    @ [s\<lparr>dnsRequests_closed := True, dnsResponses := Map.empty,
                         closed_chans := closed_chans s \<union> ran (dnsResponses s),
                         doneCh := True\<rparr>,
                       s\<lparr>dnsRequests_closed := True, dnsResponses := Map.empty,
                         closed_chans := closed_chans s \<union> ran (dnsResponses s),
                         doneCh := True, dials_closed := True\<rparr>])"
    using t by (simp only: d)
  have f': "agentSessionState_Cancel ks s
           = (None, s\<lparr>dnsRequests_closed := True, dnsResponses := Map.empty,
                      closed_chans := closed_chans s \<union> ran (dnsResponses s),
                      doneCh := True, dials_closed := True\<rparr>)"
    using f by (simp only: d)
  from t' f' show ?thesis
    by (simp only: drained_requests simp_thms)
qed

lemma agent1_simps:
  "dnsRequests_closed agent1 = False" "dials_closed agent1 = False"
  "closed_chans agent1 = {}" "dnsResponses agent1 = [''q1'' \<mapsto> 0, ''q2'' \<mapsto> 1]"
  by (simp_all add: agent1_def newAgentSessionState_def)

lemma agent1_dom: "dom (dnsResponses agent1) = {''q2'', ''q1''}"
  by (simp add: agent1_simps)

lemma agent1_ran: "ran (dnsResponses agent1) = {0, 1}"
proof -
  have "ran [''q1'' \<mapsto> 0::nat, ''q2'' \<mapsto> 1] = insert 1 (ran [''q1'' \<mapsto> 0::nat])"
    by (rule ran_map_upd) simp
  then show ?thesis by (simp add: agent1_simps insert_commute)
qed

lemma agent1_inj: "inj_on (dnsResponses agent1) (dom (dnsResponses agent1))"
  unfolding agent1_dom by (simp add: agent1_simps)

text \<open>
  The agent with the pending responses \<open>q1\<close> and \<open>q2\<close>, visited in the order \<open>q2\<close>,
  \<open>q1\<close>: the five states that \<open>Cancel\<close> passes through.
\<close>

theorem agentSessionState_Cancel_order_witness:
  "fst (exec (agentSessionState_Cancel_stmts [''q2'', ''q1'']) agent1) = None
   \<and> map (\<lambda>t. (dnsRequests_closed t, dnsResponses t ''q1'', dnsResponses t ''q2'',
                0 \<in> closed_chans t, 1 \<in> closed_chans t, doneCh t, dials_closed t))
       (snd (exec (agentSessionState_Cancel_stmts [''q2'', ''q1'']) agent1))
     = [(True, Some 0, Some 1, False, False, False, False),
        (True, Some 0, None, False, True, False, False),
        (True, None, None, True, True, False, False),
        (True, None, None, True, True, True, False),
        (True, None, None, True, True, True, True)]"
proof -
  have h1: "\<not> dnsRequests_closed agent1" and h2: "\<not> dials_closed agent1"
    by (simp_all add: agent1_simps)
  have h3: "distinct [''q2'', ''q1'']" by simp
  have h4: "set [''q2'', ''q1''] = dom (dnsResponses agent1)"
    by (simp add: agent1_dom)
  have h6: "ran (dnsResponses agent1) \<inter> closed_chans agent1 = {}"
    by (simp add: agent1_simps(3))
  have d: "doneCh agent1 = False"
    by (simp add: agent1_def newAgentSessionState_def)
  note th = agentSessionState_Cancel_order [OF h1 h2 h3 h4 agent1_inj h6]
  from th have e: "exec (agentSessionState_Cancel_stmts [''q2'', ''q1'']) agent1
     = (None,
        map (\<lambda>i. agent1\<lparr>dnsRequests_closed := True,
                   dnsResponses := (\<lambda>k. if k \<in> set (take i [''q2'', ''q1'']) then None
                                        else dnsResponses agent1 k),
                   closed_chans := closed_chans agent1
                     \<union> {lr. \<exists>k. k \<in> set (take i [''q2'', ''q1''])
                                 \<and> dnsResponses agent1 k = Some lr}\<rparr>)
            [0, 1, 2]
        @ [agent1\<lparr>dnsRequests_closed := True, dnsResponses := Map.empty,
             closed_chans := closed_chans agent1 \<union> ran (dnsResponses agent1), doneCh := True\<rparr>,
           agent1\<lparr>dnsRequests_closed := True, dnsResponses := Map.empty,
             closed_chans := closed_chans agent1 \<union> ran (dnsResponses agent1), doneCh := True,
             dials_closed := True\<rparr>])"
    by (simp add: upt_rec)
  have q: "\<exists>k. k \<noteq> ''q1'' \<and> (k \<noteq> ''q1'' \<longrightarrow> k = ''q2'')"
    by (rule exI [of _ "''q2''"]) simp
  show ?thesis
    unfolding e by (simp add: agent1_ran agent1_simps d eval_nat_numeral q)
qed

text \<open>
  An agent with one pending response channel: after the first statement of \<open>Cancel\<close> the
  request queue is closed while the response channel is still pending and open.
\<close>

theorem agentSessionState_Cancel_order_counterexample:
  "map (\<lambda>t. (dnsRequests_closed t, dnsResponses t ''q1'', 0 \<in> closed_chans t, doneCh t,
             dials_closed t))
     (snd (exec (agentSessionState_Cancel_stmts [''q1''])
             ((newAgentSessionState 0)\<lparr>dnsResponses := [''q1'' \<mapsto> 0]\<rparr>)))
   = [(True, Some 0, False, False, False),
      (True, None, True, False, False),
      (True, None, True, True, False),
      (True, None, True, True, True)]"
  by (simp add: agentSessionState_Cancel_stmts_def close_dnsRequests_def range_body_def
        cancel_ctx_def close_dials_def newAgentSessionState_def Let_def)

section \<open>Facts about steps, and the example states\<close>

text \<open>The definitions that evaluating a step unfolds.\<close>

lemmas action_defs =
  EstablishBidiPipe_begin_def EstablishBidiPipe_select1_Done_def EstablishBidiPipe_select1_send_def
  EstablishBidiPipe_select2_ctx_Done_def EstablishBidiPipe_select2_Done_def
  EstablishBidiPipe_select2_recv_def EstablishBidiPipe_select2_recv_closed_def
  OnConnect_begin_def OnConnect_select_Done_def OnConnect_return_def
  Cancel_line159_def Cancel_line160_def caller_cancel_def tick_def
  session_stmt_def cancel_ctx_def close_dials_def close_bidiPipeCh_def
  EstablishBidiPipe_register_def OnConnect_take_def map_lookup_def

text \<open>What closing a channel and a statement of \<open>Cancel\<close> leave alone.\<close>

lemma close_bidiPipeCh_fields:
  "sess (close_bidiPipeCh ch s) = sess s" "est (close_bidiPipeCh ch s) = est s"
  "onc (close_bidiPipeCh ch s) = onc s" "nchan (close_bidiPipeCh ch s) = nchan s"
  "pipes (close_bidiPipeCh ch s) = pipes s"
  by (simp_all add: close_bidiPipeCh_def)

lemma session_stmt_fields:
  "est (session_stmt f s) = est s" "onc (session_stmt f s) = onc s"
  "nchan (session_stmt f s) = nchan s" "pipes (session_stmt f s) = pipes s"
  by (simp_all add: session_stmt_def split: prod.splits option.splits)

text \<open>
  The only steps by which a call of \<open>EstablishBidiPipe\<close> comes to have returned an
  error, and what holds when they are taken.
\<close>

lemma error_return_cases:
  assumes "step a s = Some s'"
    and "est s' c = Some (E_return abp (te, Some e))"
    and "est s c \<noteq> est s' c"
  shows "sess s' = sess s \<and> te = None \<and> now s' = now s \<and> ctxs s' = ctxs s
         \<and> (a = Est_select1_Done c \<and> e = Canceled \<and> doneCh (sess s)
                \<and> est s c = Some (E_select1 abp)
             \<or> a = Est_select2_ctx_Done c \<and> e = DeadlineExceeded
                \<and> (\<exists>dl. est s c = Some (E_select2 abp dl)
                          \<and> (dl \<le> now s \<or> ctx_Done (ctxs s c) (now s)))
             \<or> a = Est_select2_Done c \<and> e = Canceled \<and> doneCh (sess s)
                \<and> (\<exists>dl. est s c = Some (E_select2 abp dl)))"
proof -
  from assms(1) have d: "do_action a s = Some s'"
    by (simp add: step_def split: if_splits)
  show ?thesis
  proof (cases a)
    case (Est_begin c' ctx strm)
    with d assms(2,3) show ?thesis
      by (auto simp: EstablishBidiPipe_begin_def Let_def split: if_splits)
  next
    case (Est_select1_Done c')
    with d assms(2,3) show ?thesis
      by (auto simp: EstablishBidiPipe_select1_Done_def split: option.splits est_pc.splits if_splits)
  next
    case (Est_select1_send c')
    with d assms(2,3) show ?thesis
      by (auto simp: EstablishBidiPipe_select1_send_def split: option.splits est_pc.splits if_splits)
  next
    case (Est_select2_ctx_Done c')
    with d assms(2,3) show ?thesis
      by (auto simp: EstablishBidiPipe_select2_ctx_Done_def
            split: option.splits est_pc.splits if_splits)
  next
    case (Est_select2_Done c')
    with d assms(2,3) show ?thesis
      by (auto simp: EstablishBidiPipe_select2_Done_def split: option.splits est_pc.splits if_splits)
  next
    case (Est_select2_recv c' oc)
    with d assms(2,3) show ?thesis
      by (auto simp: EstablishBidiPipe_select2_recv_def
            split: option.splits est_pc.splits onc_pc.splits if_splits)
  next
    case (Est_select2_recv_closed c')
    with d assms(2,3) show ?thesis
      by (auto simp: EstablishBidiPipe_select2_recv_closed_def
            split: option.splits est_pc.splits if_splits)
  next
    case (Onc_begin oc strm)
    with d assms(2,3) show ?thesis
      by (auto simp: OnConnect_begin_def Let_def split: if_splits prod.splits option.splits)
  next
    case (Onc_select_Done oc)
    with d assms(2,3) show ?thesis
      by (auto simp: OnConnect_select_Done_def close_bidiPipeCh_fields
            split: option.splits onc_pc.splits if_splits)
  next
    case (Onc_return oc)
    with d assms(2,3) show ?thesis
      by (auto simp: OnConnect_return_def close_bidiPipeCh_fields
            split: option.splits onc_pc.splits if_splits)
  next
    case Cancel_159
    with d assms(2,3) show ?thesis
      by (auto simp: Cancel_line159_def session_stmt_fields)
  next
    case Cancel_160
    with d assms(2,3) show ?thesis
      by (auto simp: Cancel_line160_def session_stmt_fields split: if_splits)
  next
    case (Caller_cancel c')
    with d assms(2,3) show ?thesis
      by (auto simp: caller_cancel_def)
  next
    case (Tick n)
    with d assms(2,3) show ?thesis
      by (auto simp: tick_def split: if_splits)
  qed
qed

text \<open>The example states are reached from a new session.\<close>

lemma ctxs_init: "(ctxs (init t0))(c := background) = ctxs (init t0)"
  by (simp add: init_def background_def fun_eq_iff)

lemma strm_ab_simps: "ID strm_ab = ''ab''" "wait_window strm_ab = 100"
  by (simp_all add: strm_ab_def wait_window_def)

lemma sysA_reached: "run [Est_begin 0 background strm_ab] (init 0) = Some sysA"
  using ctxs_init [of 0 0]
  by (simp add: step_def EstablishBidiPipe_begin_def EstablishBidiPipe_register_def Let_def
        sysA_def abp0_def strm_ab_simps)
     (simp add: init_def newSessionState_def)

lemma sysB_reached: "run [Est_select1_send 0] sysA = Some sysB"
  by (simp add: step_def EstablishBidiPipe_select1_send_def sysB_def sysA_def init_def
        newSessionState_def abp0_def strm_ab_simps)

lemma sysB_cancelled_reached: "run [Cancel_159, Cancel_160] sysB = Some sysB_cancelled"
  by (simp add: step_def Cancel_line159_def Cancel_line160_def session_stmt_def cancel_ctx_def
        close_dials_def sysB_cancelled_def sessionState_Cancel_eq sysB_def sysA_def init_def
        newSessionState_def)

lemma sysB_late_reached: "run [Tick 100] sysB = Some sysB_late"
  by (simp add: step_def tick_def sysB_late_def sysB_def sysA_def init_def)

lemma sysB_timedout_step: "step (Est_select2_ctx_Done 0) sysB_late = Some sysB_timedout"
  by (simp add: step_def EstablishBidiPipe_select2_ctx_Done_def sysB_timedout_def sysB_late_def
        sysB_def sysA_def init_def)

section \<open>Registering a ConnID that is already waiting\<close>

text \<open>
  C2, as the code has it. If \<open>EstablishBidiPipe\<close> is called while the waiting-map
  already has an entry for the stream's ConnID, the call does not fail: it puts its own
  WaitSlot in the place of the earlier one, leaves the entries of other ConnIDs as they
  are, and goes on to the select that dispatches the DialRequest. No AlreadyExists error
  exists in the code.
\<close>

theorem EstablishBidiPipe_register_replaces:
  assumes "panicked s = None" and "est s c = None"
    and "map_lookup (sess s) (ID strm) = Some old"
  shows "\<exists>s'. step (Est_begin c ctx strm) s = Some s'
            \<and> est s' c = Some (E_select1 \<lparr>stream = strm, bidiPipeCh = nchan s\<rparr>)
            \<and> map_lookup (sess s') (ID strm) = Some \<lparr>stream = strm, bidiPipeCh = nchan s\<rparr>
            \<and> (\<forall>k. k \<noteq> ID strm \<longrightarrow> map_lookup (sess s') k = map_lookup (sess s) k)
            \<and> panicked s' = None"
  using assms
  by (auto simp: step_def EstablishBidiPipe_begin_def EstablishBidiPipe_register_def
        map_lookup_def Let_def split: option.splits)

text \<open>
  Two calls with the same ConnID on a fresh session: the second call is waiting at its
  first select like the first one, and the map holds the second call's WaitSlot.
\<close>

theorem EstablishBidiPipe_register_replaces_counterexample:
  "map_option (\<lambda>s. (est s 0, est s 1, map_lookup (sess s) ''ab''))
     (run [Est_begin 0 background strm_ab, Est_begin 1 background strm_ab2] (init 0))
   = Some (Some (E_select1 \<lparr>stream = strm_ab, bidiPipeCh = 0\<rparr>),
           Some (E_select1 \<lparr>stream = strm_ab2, bidiPipeCh = 1\<rparr>),
           Some \<lparr>stream = strm_ab2, bidiPipeCh = 1\<rparr>)"
  by (simp add: step_def init_def newSessionState_def action_defs Let_def strm_ab_def strm_ab2_def)

theorem EstablishBidiPipe_register_replaces_witness:
  "map_option (\<lambda>s. (est s 1, map_lookup (sess s) ''ab''))
      (step (Est_begin 1 background strm_ab2) sysA)
   = Some (Some (E_select1 \<lparr>stream = strm_ab2, bidiPipeCh = 1\<rparr>),
           Some \<lparr>stream = strm_ab2, bidiPipeCh = 1\<rparr>)"
proof -
  have h: "panicked sysA = None" "est sysA 1 = None"
    "map_lookup (sess sysA) (ID strm_ab2) = Some abp0"
    by (simp_all add: sysA_def init_def map_lookup_def strm_ab2_def)
  have n: "nchan sysA = 1" "ID strm_ab2 = ''ab''" by (simp_all add: sysA_def strm_ab2_def)
  from EstablishBidiPipe_register_replaces [OF h, of background] show ?thesis
    by (auto simp: n)
qed

section \<open>OnConnect without a waiting half\<close>

text \<open>
  C7. For every state whose waiting-map has no entry for the ConnID of the incoming
  stream, \<open>OnConnect\<close> returns a nil endpoint and a nil error; no BidiPipe is
  constructed or started, and the session state, the waiting-map with it, is unchanged:
  the only difference in the system is that the call has returned.
\<close>

theorem OnConnect_without_entry:
  assumes "panicked s = None" and "onc s oc = None"
    and "map_lookup (sess s) (ID strm) = None"
  shows "\<exists>s'. step (Onc_begin oc strm) s = Some s'
            \<and> s' = s\<lparr>onc := (onc s)(oc \<mapsto> O_return strm (None, None))\<rparr>
            \<and> onc s' oc = Some (O_return strm (None, None))
            \<and> pipes s' = pipes s
            \<and> sess s' = sess s"
  using assms by (simp add: step_def OnConnect_begin_def OnConnect_take_def)

theorem OnConnect_without_entry_witness:
  "step (Onc_begin 0 strm_zz) sysA
     = Some (sysA\<lparr>onc := [0 \<mapsto> O_return strm_zz (None, None)]\<rparr>)
   \<and> step (Onc_begin 0 strm_agent) (init 0)
     = Some ((init 0)\<lparr>onc := [0 \<mapsto> O_return strm_agent (None, None)]\<rparr>)"
proof -
  have a: "panicked sysA = None" "onc sysA 0 = None" "map_lookup (sess sysA) (ID strm_zz) = None"
    by (simp_all add: sysA_def init_def map_lookup_def strm_zz_def)
  have b: "panicked (init 0) = None" "onc (init 0) 0 = None"
    "map_lookup (sess (init 0)) (ID strm_agent) = None"
    by (simp_all add: init_def map_lookup_def newSessionState_def)
  have e: "onc sysA = Map.empty" "onc (init 0) = Map.empty" by (simp_all add: sysA_def init_def)
  from OnConnect_without_entry [OF a] OnConnect_without_entry [OF b] show ?thesis
    by (simp add: e)
qed

section \<open>Cancel and the waiting-map\<close>

lemma agent_Cancel_keeps_map:
  "awaitingBidiPipeMap (snd (agentSessionState_Cancel ks a)) = awaitingBidiPipeMap a"
  unfolding agentSessionState_Cancel_def
  by (rule run_stmts_preserves [where P = "\<lambda>t. awaitingBidiPipeMap t = awaitingBidiPipeMap a"])
     (auto simp: agentSessionState_Cancel_stmts_def close_dnsRequests_def range_body_def
        cancel_ctx_def close_dials_def Let_def split: option.splits)

text \<open>
  C5, as the code has it. \<open>Cancel\<close> does not touch the waiting-map: after it the map of
  a client or agent session is what it was before. What \<open>Cancel\<close> does is close the
  done channel and \<open>dials\<close>; a call of \<open>EstablishBidiPipe\<close> blocked in either of its
  selects is released by the done channel, whose case it can then take to return
  Cancelled.
\<close>

theorem Cancel_keeps_waiting_map:
  "awaitingBidiPipeMap (snd (sessionState_Cancel ss)) = awaitingBidiPipeMap ss
   \<and> doneCh (snd (sessionState_Cancel ss))
   \<and> dials_closed (snd (sessionState_Cancel ss))
   \<and> awaitingBidiPipeMap (snd (agentSessionState_Cancel ks a)) = awaitingBidiPipeMap a
   \<and> (panicked s = None \<and> doneCh (sess s) \<and> est s c = Some (E_select1 abp) \<longrightarrow>
        step (Est_select1_Done c) s
          = Some (s\<lparr>est := (est s)(c \<mapsto> E_return abp (None, Some Canceled))\<rparr>))
   \<and> (panicked s = None \<and> doneCh (sess s) \<and> est s c = Some (E_select2 abp dl) \<longrightarrow>
        step (Est_select2_Done c) s
          = Some (s\<lparr>est := (est s)(c \<mapsto> E_return abp (None, Some Canceled))\<rparr>))"
  by (simp add: sessionState_Cancel_eq agent_Cancel_keeps_map step_def
        EstablishBidiPipe_select1_Done_def EstablishBidiPipe_select2_Done_def)

theorem Cancel_keeps_waiting_map_witness:
  "map_lookup (sess sysB_cancelled) ''ab'' = Some abp0
   \<and> step (Est_select2_Done 0) sysB_cancelled
       = Some (sysB_cancelled\<lparr>est := [0 \<mapsto> E_return abp0 (None, Some Canceled)]\<rparr>)"
proof -
  have h: "panicked sysB_cancelled = None" "doneCh (sess sysB_cancelled)"
    "est sysB_cancelled 0 = Some (E_select2 abp0 100)"
    by (simp_all add: sysB_cancelled_def sysB_def sysA_def init_def sessionState_Cancel_eq)
  have m: "awaitingBidiPipeMap (sess sysB) = Some [''ab'' \<mapsto> abp0]"
    by (simp add: sysB_def sysA_def)
  have e: "est sysB_cancelled = [0 \<mapsto> E_select2 abp0 100]"
    by (simp add: sysB_cancelled_def sysB_def)
  from Cancel_keeps_waiting_map [of "sess sysB" "[]" agent1 sysB_cancelled 0 abp0 100] h m e
  show ?thesis
    by (simp add: map_lookup_def sysB_cancelled_def)
qed

text \<open>A session with one registered WaitSlot still has it after \<open>Cancel\<close>.\<close>

theorem Cancel_keeps_waiting_map_counterexample:
  "fst (sessionState_Cancel (EstablishBidiPipe_register ''ab'' abp0 (newSessionState 0))) = None
   \<and> map_lookup
       (snd (sessionState_Cancel
               (EstablishBidiPipe_register ''ab'' abp0 (newSessionState 0)))) ''ab''
     = Some abp0"
  by (simp add: sessionState_Cancel_eq EstablishBidiPipe_register_def newSessionState_def
        map_lookup_def)

section \<open>The error exits of EstablishBidiPipe\<close>

text \<open>
  C3, as the code has it. A call of \<open>EstablishBidiPipe\<close> returns an error through one
  of three steps: Cancelled at the first select, DeadlineExceeded or Cancelled at the
  second. None of them removes the WaitSlot: the step that returns the error leaves the
  session state, the waiting-map with it, exactly as it was, and the endpoint it returns
  is nil.
\<close>

theorem EstablishBidiPipe_error_exit_keeps_map:
  assumes "step a s = Some s'"
    and "est s' c = Some (E_return abp (te, Some e))"
    and "est s c \<noteq> est s' c"
  shows "sess s' = sess s \<and> te = None
         \<and> a \<in> {Est_select1_Done c, Est_select2_ctx_Done c, Est_select2_Done c}"
  using error_return_cases [OF assms] by auto

theorem EstablishBidiPipe_error_exit_keeps_map_witness:
  "step (Est_select2_ctx_Done 0) sysB_late = Some sysB_timedout
   \<and> est sysB_timedout 0 = Some (E_return abp0 (None, Some DeadlineExceeded))
   \<and> est sysB_late 0 \<noteq> est sysB_timedout 0
   \<and> sess sysB_timedout = sess sysB_late
   \<and> map_lookup (sess sysB_timedout) ''ab'' = Some abp0"
proof -
  have h2: "est sysB_timedout 0 = Some (E_return abp0 (None, Some DeadlineExceeded))"
    by (simp add: sysB_timedout_def)
  have h3: "est sysB_late 0 \<noteq> est sysB_timedout 0"
    by (simp add: sysB_timedout_def sysB_late_def sysB_def)
  have m: "map_lookup (sess sysB_late) ''ab'' = Some abp0"
    by (simp add: map_lookup_def sysB_late_def sysB_def sysA_def)
  from EstablishBidiPipe_error_exit_keeps_map [OF sysB_timedout_step h2 h3]
  show ?thesis using sysB_timedout_step h2 h3 m by simp
qed

text \<open>
  Each of the three error exits, reached on a fresh session: the call has returned its
  error and its WaitSlot is still in the map.
\<close>

theorem EstablishBidiPipe_error_exit_counterexample:
  "map_option (\<lambda>s. (est s 0, map_lookup (sess s) ''ab''))
     (run [Est_begin 0 background strm_ab, Cancel_159, Est_select1_Done 0] (init 0))
   = Some (Some (E_return abp0 (None, Some Canceled)), Some abp0)
   \<and> map_option (\<lambda>s. (est s 0, map_lookup (sess s) ''ab''))
     (run [Est_begin 0 background strm_ab, Est_select1_send 0, Cancel_159, Est_select2_Done 0]
        (init 0))
   = Some (Some (E_return abp0 (None, Some Canceled)), Some abp0)
   \<and> map_option (\<lambda>s. (est s 0, map_lookup (sess s) ''ab''))
     (run [Est_begin 0 background strm_ab, Est_select1_send 0, Tick 100, Est_select2_ctx_Done 0]
        (init 0))
   = Some (Some (E_return abp0 (None, Some DeadlineExceeded)), Some abp0)"
  by (simp add: step_def init_def newSessionState_def action_defs Let_def strm_ab_def abp0_def
        mk_DialRequest_def wait_window_def background_def ctx_Done_def)

section \<open>Dispatching on a cancelled session\<close>

text \<open>
  C8, evaluated. Once \<open>Cancel\<close> has completed, the done channel and \<open>dials\<close> are both
  closed. A call of \<open>EstablishBidiPipe\<close> made after that finds both cases of its first
  select ready: taking \<open><-ss.Done()\<close> returns Cancelled, taking \<open>ss.dials <- dr\<close>
  panics with "send on closed channel".
\<close>

theorem dispatch_after_Cancel_panics:
  "map_option (\<lambda>s. (doneCh (sess s), dials_closed (sess s), panicked s))
     (run [Cancel_159, Cancel_160] (init 0))
   = Some (True, True, None)
   \<and> map_option (\<lambda>s. (est s 0, panicked s))
     (run [Cancel_159, Cancel_160, Est_begin 0 background strm_ab, Est_select1_Done 0] (init 0))
   = Some (Some (E_return abp0 (None, Some Canceled)), None)
   \<and> map_option (\<lambda>s. (est s 0, panicked s))
     (run [Cancel_159, Cancel_160, Est_begin 0 background strm_ab, Est_select1_send 0] (init 0))
   = Some (Some (E_select1 abp0), Some send_on_closed_channel)"
  by (simp add: step_def init_def newSessionState_def action_defs Let_def strm_ab_def abp0_def
        background_def)

section \<open>The deadline of EstablishBidiPipe\<close>

lemma wait_window_sum:
  "- (2 ^ 63) \<le> sint (DialTimeout strm) + sint (RoundtripLatency strm) \<Longrightarrow>
   sint (DialTimeout strm) + sint (RoundtripLatency strm) < 2 ^ 63 \<Longrightarrow>
   wait_window strm = sint (DialTimeout strm) + sint (RoundtripLatency strm)"
  by (simp add: wait_window_def sint_word_add signed_take_bit_int_eq_self)

text \<open>
  C6, as the code has it. When the DialRequest is handed over at time \<open>t\<close>, the call
  waits with the deadline \<open>t + window\<close>, where \<open>window\<close> is the int64 sum of the
  stream's dial-timeout and roundtrip-latency (their sum as integers when that fits in
  int64). While the call waits, the case that returns DeadlineExceeded can be taken exactly
  when the deadline has been reached or the caller's own context is done; if moreover the
  session is not cancelled, the channel is not closed and no \<open>OnConnect\<close> is sending
  on it, no other case can be taken. Whenever a call returns DeadlineExceeded, the
  deadline had been reached or the caller's context was done.
\<close>

theorem EstablishBidiPipe_deadline:
  assumes "panicked s = None"
  shows
    "(est s c = Some (E_select1 abp) \<and> \<not> dials_closed (sess s) \<longrightarrow>
        step (Est_select1_send c) s
          = Some (s\<lparr>delivered := delivered s @ [mk_DialRequest (stream abp)],
                     est := (est s)(c \<mapsto> E_select2 abp (now s + wait_window (stream abp)))\<rparr>))
     \<and> (- (2 ^ 63) \<le> sint (DialTimeout strm) + sint (RoundtripLatency strm)
          \<and> sint (DialTimeout strm) + sint (RoundtripLatency strm) < 2 ^ 63 \<longrightarrow>
        wait_window strm = sint (DialTimeout strm) + sint (RoundtripLatency strm))
     \<and> (est s c = Some (E_select2 abp dl) \<longrightarrow>
          step (Est_select2_ctx_Done c) s
            = (if dl \<le> now s \<or> ctx_Done (ctxs s c) (now s)
               then Some (s\<lparr>est := (est s)(c \<mapsto> E_return abp (None, Some DeadlineExceeded))\<rparr>)
               else None)
          \<and> (\<not> doneCh (sess s) \<longrightarrow> step (Est_select2_Done c) s = None)
          \<and> (bidiPipeCh abp \<notin> closed_bidiPipeCh s \<longrightarrow>
                step (Est_select2_recv_closed c) s = None)
          \<and> ((\<forall>strm' abp' p. onc s oc = Some (O_select strm' abp' p) \<longrightarrow>
                   bidiPipeCh abp' \<noteq> bidiPipeCh abp) \<longrightarrow>
                step (Est_select2_recv c oc) s = None))
     \<and> (step a s = Some s' \<and> est s' c = Some (E_return abp (te, Some DeadlineExceeded))
          \<and> est s c \<noteq> est s' c \<longrightarrow>
        a = Est_select2_ctx_Done c
        \<and> (\<exists>dl. est s c = Some (E_select2 abp dl)
                 \<and> (dl \<le> now s \<or> ctx_Done (ctxs s c) (now s))))"
proof -
  have 1: "est s c = Some (E_select1 abp) \<and> \<not> dials_closed (sess s) \<longrightarrow>
        step (Est_select1_send c) s
          = Some (s\<lparr>delivered := delivered s @ [mk_DialRequest (stream abp)],
                     est := (est s)(c \<mapsto> E_select2 abp (now s + wait_window (stream abp)))\<rparr>)"
    using assms by (simp add: step_def EstablishBidiPipe_select1_send_def)
  have 2: "- (2 ^ 63) \<le> sint (DialTimeout strm) + sint (RoundtripLatency strm)
          \<and> sint (DialTimeout strm) + sint (RoundtripLatency strm) < 2 ^ 63 \<longrightarrow>
        wait_window strm = sint (DialTimeout strm) + sint (RoundtripLatency strm)"
    using wait_window_sum by blast
  have 3: "est s c = Some (E_select2 abp dl) \<longrightarrow>
          step (Est_select2_ctx_Done c) s
            = (if dl \<le> now s \<or> ctx_Done (ctxs s c) (now s)
               then Some (s\<lparr>est := (est s)(c \<mapsto> E_return abp (None, Some DeadlineExceeded))\<rparr>)
               else None)"
    using assms by (simp add: step_def EstablishBidiPipe_select2_ctx_Done_def)
  have 4: "est s c = Some (E_select2 abp dl) \<longrightarrow> \<not> doneCh (sess s) \<longrightarrow>
             step (Est_select2_Done c) s = None"
    using assms by (simp add: step_def EstablishBidiPipe_select2_Done_def)
  have 5: "est s c = Some (E_select2 abp dl) \<longrightarrow> bidiPipeCh abp \<notin> closed_bidiPipeCh s \<longrightarrow>
             step (Est_select2_recv_closed c) s = None"
    using assms by (simp add: step_def EstablishBidiPipe_select2_recv_closed_def)
  have 6: "est s c = Some (E_select2 abp dl) \<longrightarrow>
            (\<forall>strm' abp' p. onc s oc = Some (O_select strm' abp' p) \<longrightarrow>
                   bidiPipeCh abp' \<noteq> bidiPipeCh abp) \<longrightarrow>
             step (Est_select2_recv c oc) s = None"
    using assms
    by (auto simp: step_def EstablishBidiPipe_select2_recv_def split: option.splits onc_pc.splits)
  have 7: "step a s = Some s' \<and> est s' c = Some (E_return abp (te, Some DeadlineExceeded))
          \<and> est s c \<noteq> est s' c \<longrightarrow>
        a = Est_select2_ctx_Done c
        \<and> (\<exists>dl. est s c = Some (E_select2 abp dl)
                 \<and> (dl \<le> now s \<or> ctx_Done (ctxs s c) (now s)))"
    using error_return_cases [of a s s' c abp te DeadlineExceeded] by auto
  from 1 2 3 4 5 6 7 show ?thesis by blast
qed

theorem EstablishBidiPipe_deadline_witness:
  "step (Est_select1_send 0) sysA = Some sysB
   \<and> wait_window strm_ab = 100
   \<and> step (Est_select2_ctx_Done 0) sysB = None
   \<and> step (Est_select2_ctx_Done 0) sysB_late = Some sysB_timedout
   \<and> step (Est_select2_Done 0) sysB_late = None
   \<and> step (Est_select2_recv_closed 0) sysB_late = None
   \<and> step (Est_select2_recv 0 0) sysB_late = None"
proof -
  have pA: "panicked sysA = None" and pB: "panicked sysB = None"
    and pL: "panicked sysB_late = None"
    by (simp_all add: sysB_late_def sysB_def sysA_def init_def)
  have eA: "est sysA 0 = Some (E_select1 abp0)" "\<not> dials_closed (sess sysA)"
    "now sysA = 0" "delivered sysA = []" "est sysA = [0 \<mapsto> E_select1 abp0]"
    by (simp_all add: sysA_def init_def newSessionState_def)
  have eB: "est sysB 0 = Some (E_select2 abp0 100)" "now sysB = 0"
    "\<not> ctx_Done (ctxs sysB 0) 0"
    by (simp_all add: sysB_def sysA_def init_def ctx_Done_def)
  have eL: "est sysB_late 0 = Some (E_select2 abp0 100)" "now sysB_late = 100"
    "\<not> doneCh (sess sysB_late)" "bidiPipeCh abp0 \<notin> closed_bidiPipeCh sysB_late"
    "onc sysB_late 0 = None" "est sysB_late = [0 \<mapsto> E_select2 abp0 100]"
    by (simp_all add: sysB_late_def sysB_def sysA_def init_def newSessionState_def)
  have w: "sint (DialTimeout strm_ab) + sint (RoundtripLatency strm_ab) = 100"
    by (simp add: strm_ab_def)
  have st: "stream abp0 = strm_ab" by (simp add: abp0_def)
  have a: "step (Est_select1_send 0) sysA = Some sysB"
    using EstablishBidiPipe_deadline [OF pA, of 0 abp0 strm_ab] eA
    by (simp add: st strm_ab_simps sysB_def)
  have b: "wait_window strm_ab = 100"
    using EstablishBidiPipe_deadline [OF pA, of 0 abp0 strm_ab] w by simp
  have c: "step (Est_select2_ctx_Done 0) sysB = None"
    using EstablishBidiPipe_deadline [OF pB, of 0 abp0 strm_ab 100] eB by simp
  have d: "step (Est_select2_ctx_Done 0) sysB_late = Some sysB_timedout
     \<and> step (Est_select2_Done 0) sysB_late = None
     \<and> step (Est_select2_recv_closed 0) sysB_late = None
     \<and> step (Est_select2_recv 0 0) sysB_late = None"
    using EstablishBidiPipe_deadline [OF pL, of 0 abp0 strm_ab 100 0] eL
    by (simp add: sysB_timedout_def)
  from a b c d show ?thesis by simp
qed

text \<open>
  With a window of 100 ns, the caller cancels its context 5 ns after the dispatch: the
  call returns DeadlineExceeded at time 5, with the session not cancelled.
\<close>

theorem EstablishBidiPipe_deadline_counterexample:
  "wait_window strm_ab = 100
   \<and> map_option (\<lambda>s. (est s 0, now s, doneCh (sess s)))
       (run [Est_begin 0 background strm_ab, Est_select1_send 0, Tick 5, Caller_cancel 0,
             Est_select2_ctx_Done 0] (init 0))
     = Some (Some (E_return abp0 (None, Some DeadlineExceeded)), 5, False)"
  by (simp add: step_def init_def newSessionState_def action_defs Let_def strm_ab_def abp0_def
        mk_DialRequest_def wait_window_def background_def ctx_Done_def)

section \<open>The endpoint that EstablishBidiPipe returns\<close>

lemma map_lookup_register:
  "map_lookup (EstablishBidiPipe_register k w ss) = (map_lookup ss)(k \<mapsto> w)"
  by (auto simp: map_lookup_def EstablishBidiPipe_register_def fun_eq_iff split: option.splits)

lemma OnConnect_take_None:
  "OnConnect_take k ss = (None, ss') \<Longrightarrow> ss' = ss \<and> map_lookup ss k = None"
  by (auto simp: OnConnect_take_def split: option.splits)

lemma OnConnect_take_Some:
  "OnConnect_take k ss = (Some w, ss') \<Longrightarrow>
   map_lookup ss k = Some w \<and> map_lookup ss' = (map_lookup ss)(k := None)"
proof -
  assume a: "OnConnect_take k ss = (Some w, ss')"
  then have l: "map_lookup ss k = Some w"
    by (auto simp: OnConnect_take_def split: option.splits)
  then obtain m where m: "awaitingBidiPipeMap ss = Some m" "m k = Some w"
    by (auto simp: map_lookup_def split: option.splits)
  from a l m have "ss' = ss\<lparr>awaitingBidiPipeMap := Some (m(k := None))\<rparr>"
    by (simp add: OnConnect_take_def)
  then have "map_lookup ss' = (map_lookup ss)(k := None)"
    using m by (simp add: map_lookup_def fun_eq_iff)
  with l show ?thesis by simp
qed

lemma session_stmt_lookup:
  "f = cancel_ctx \<or> f = close_dials \<Longrightarrow> map_lookup (sess (session_stmt f s)) = map_lookup (sess s)"
  by (auto simp: session_stmt_def cancel_ctx_def close_dials_def map_lookup_def fun_eq_iff)

lemma step_moves:
  assumes "step a s = Some s'"
  shows "moves s s'"
proof -
  from assms have d: "do_action a s = Some s'"
    by (simp add: step_def split: if_splits)
  show ?thesis
  proof (cases a)
    case (Est_begin c ctx strm)
    with d show ?thesis
      by (auto simp: EstablishBidiPipe_begin_def Let_def map_lookup_register
            split: if_splits intro!: m_begin [of s c _ strm])
  next
    case (Est_select1_Done c)
    with d show ?thesis
      by (auto simp: EstablishBidiPipe_select1_Done_def
            split: option.splits est_pc.splits if_splits intro!: m_est [of s c])
  next
    case (Est_select1_send c)
    with d show ?thesis
      by (auto simp: EstablishBidiPipe_select1_send_def
            split: option.splits est_pc.splits if_splits intro: m_est [of s c] m_other)
  next
    case (Est_select2_ctx_Done c)
    with d show ?thesis
      by (auto simp: EstablishBidiPipe_select2_ctx_Done_def
            split: option.splits est_pc.splits if_splits intro!: m_est [of s c])
  next
    case (Est_select2_Done c)
    with d show ?thesis
      by (auto simp: EstablishBidiPipe_select2_Done_def
            split: option.splits est_pc.splits if_splits intro!: m_est [of s c])
  next
    case (Est_select2_recv c oc)
    with d show ?thesis
      by (auto simp: EstablishBidiPipe_select2_recv_def
            split: option.splits est_pc.splits onc_pc.splits if_splits
            intro!: m_recv [of s c _ _ oc])
  next
    case (Est_select2_recv_closed c)
    with d show ?thesis
      by (auto simp: EstablishBidiPipe_select2_recv_closed_def
            split: option.splits est_pc.splits if_splits intro!: m_est [of s c])
  next
    case (Onc_begin oc strm)
    with d show ?thesis
      by (auto simp: OnConnect_begin_def Let_def
            split: if_splits prod.splits option.splits
            dest!: OnConnect_take_None OnConnect_take_Some
            intro: m_onc_none [of s oc _ strm] m_onc_take [of s oc strm])
  next
    case (Onc_select_Done oc)
    with d show ?thesis
      by (auto simp: OnConnect_select_Done_def close_bidiPipeCh_fields
            split: option.splits onc_pc.splits if_splits intro!: m_onc_done [of s oc])
  next
    case (Onc_return oc)
    with d show ?thesis
      by (auto simp: OnConnect_return_def close_bidiPipeCh_fields
            split: option.splits onc_pc.splits if_splits intro!: m_onc_return [of s oc])
  next
    case Cancel_159
    with d show ?thesis
      by (auto simp: Cancel_line159_def session_stmt_fields session_stmt_lookup intro!: m_other)
  next
    case Cancel_160
    with d show ?thesis
      by (auto simp: Cancel_line160_def session_stmt_fields session_stmt_lookup
            split: if_splits intro!: m_other)
  next
    case (Caller_cancel c)
    with d show ?thesis by (auto simp: caller_cancel_def intro!: m_other)
  next
    case (Tick n)
    with d show ?thesis by (auto simp: tick_def split: if_splits intro!: m_other)
  qed
qed

lemma inv_est_moves:
  assumes "inv_est s" and "moves s s'"
  shows "inv_est s'"
  using assms(2,1)
proof (cases rule: moves.cases)
  case (m_begin c w strm)
  then show ?thesis using assms(1)
    unfolding inv_est_def by (auto split: if_splits) (fastforce+)?
next
  case (m_est c pc pc')
  then show ?thesis using assms(1)
    unfolding inv_est_def by (auto split: if_splits) (metis+)?
next
  case (m_recv c abp dl oc strm w p)
  then show ?thesis using assms(1)
    unfolding inv_est_def by (auto split: if_splits) (fastforce+)?
qed (auto simp: inv_est_def)

lemma est_abp_kept:
  assumes "moves s s'" and "est s c = Some pc"
  shows "\<exists>pc'. est s' c = Some pc' \<and> est_abp pc' = est_abp pc"
  using assms by (cases rule: moves.cases) (auto split: if_splits)

lemma inv_map_moves:
  assumes "inv_map s" and "moves s s'"
  shows "inv_map s'"
  unfolding inv_map_def
proof (intro allI impI)
  fix k v assume a: "map_lookup (sess s') k = Some v"
  have old: "map_lookup (sess s) k = Some v \<Longrightarrow>
             ID (stream v) = k \<and> (\<exists>c pc. est s' c = Some pc \<and> est_abp pc = v)"
  proof -
    assume "map_lookup (sess s) k = Some v"
    with assms(1) obtain c' pc0 where h: "ID (stream v) = k" "est s c' = Some pc0" "est_abp pc0 = v"
      unfolding inv_map_def by blast
    from est_abp_kept [OF assms(2) h(2)] h show ?thesis by auto
  qed
  from assms(2) show "ID (stream v) = k \<and> (\<exists>c pc. est s' c = Some pc \<and> est_abp pc = v)"
  proof (cases rule: moves.cases)
    case (m_begin c w strm)
    show ?thesis
    proof (cases "k = ID strm")
      case True
      with a m_begin have "v = w" by simp
      with True m_begin show ?thesis by auto
    next
      case False
      with a m_begin have "map_lookup (sess s) k = Some v" by simp
      then show ?thesis by (rule old)
    qed
  next
    case (m_onc_take oc strm w p)
    with a have "map_lookup (sess s) k = Some v" by (auto split: if_splits)
    then show ?thesis by (rule old)
  qed (use a old in auto)
qed

lemma map_lookup_shrinks:
  assumes "moves s s'" and "map_lookup (sess s') k = Some v"
  shows "map_lookup (sess s) k = Some v \<or> bidiPipeCh v = nchan s"
  using assms by (cases rule: moves.cases) (auto split: if_splits)

lemma onc_select_origin:
  assumes "moves s s'" and "onc s' oc = Some (O_select strm w p)"
  shows "onc s oc = Some (O_select strm w p)
         \<or> (onc s oc = None \<and> map_lookup (sess s) (ID strm) = Some w \<and> est s' = est s
             \<and> map_lookup (sess s') = (map_lookup (sess s))(ID strm := None))"
  using assms by (cases rule: moves.cases) (auto split: if_splits)

lemma onc_result_kept:
  assumes "moves s s'"
    and "onc s oc = Some (O_sent strm w p) \<or> onc s oc = Some (O_return strm (Some p, None))"
  shows "onc s' oc = Some (O_sent strm w p) \<or> onc s' oc = Some (O_return strm (Some p, None))"
  using assms by (cases rule: moves.cases) (auto split: if_splits)

lemma ret_origin:
  assumes "moves s s'" and "est s' c = Some (E_return w (Some p, err))"
  shows "est s c = Some (E_return w (Some p, err))
         \<or> (err = None
             \<and> (\<exists>dl oc strm w'. est s c = Some (E_select2 w dl)
                    \<and> onc s oc = Some (O_select strm w' p) \<and> bidiPipeCh w' = bidiPipeCh w
                    \<and> onc s' oc = Some (O_sent strm w' p)
                    \<and> map_lookup (sess s') = map_lookup (sess s)))"
  using assms by (cases rule: moves.cases) (auto split: if_splits)

lemma inv_onc_moves:
  assumes "inv_est s" and "inv_map s" and "inv_onc s" and "moves s s'"
  shows "inv_onc s'"
  unfolding inv_onc_def
proof (intro allI impI)
  fix oc strm w p assume a: "onc s' oc = Some (O_select strm w p)"
  have est': "\<exists>c pc. est s c = Some pc \<and> est_abp pc = w \<Longrightarrow>
              \<exists>c pc. est s' c = Some pc \<and> est_abp pc = w"
    using est_abp_kept [OF assms(4)] by metis
  from onc_select_origin [OF assms(4) a]
  show "ID strm = ID (stream w)
        \<and> (\<exists>c pc. est s' c = Some pc \<and> est_abp pc = w)
        \<and> (\<forall>k w'. map_lookup (sess s') k = Some w' \<longrightarrow> bidiPipeCh w' \<noteq> bidiPipeCh w)"
  proof (elim disjE conjE)
    assume o: "onc s oc = Some (O_select strm w p)"
    with assms(3) have h: "ID strm = ID (stream w)"
      "\<exists>c pc. est s c = Some pc \<and> est_abp pc = w"
      "\<forall>k w'. map_lookup (sess s) k = Some w' \<longrightarrow> bidiPipeCh w' \<noteq> bidiPipeCh w"
      unfolding inv_onc_def by blast+
    from h(2) assms(1) have lt: "bidiPipeCh w < nchan s" unfolding inv_est_def by blast
    have "\<forall>k w'. map_lookup (sess s') k = Some w' \<longrightarrow> bidiPipeCh w' \<noteq> bidiPipeCh w"
    proof (intro allI impI)
      fix k w' assume "map_lookup (sess s') k = Some w'"
      from map_lookup_shrinks [OF assms(4) this] h(3) lt
      show "bidiPipeCh w' \<noteq> bidiPipeCh w" by auto
    qed
    with h est' show ?thesis by blast
  next
    assume n: "onc s oc = None" and m: "map_lookup (sess s) (ID strm) = Some w"
      and e: "est s' = est s"
      and m': "map_lookup (sess s') = (map_lookup (sess s))(ID strm := None)"
    from m assms(2) obtain c pc where h: "ID (stream w) = ID strm" "est s c = Some pc"
      "est_abp pc = w" unfolding inv_map_def by blast
    have "\<forall>k w'. map_lookup (sess s') k = Some w' \<longrightarrow> bidiPipeCh w' \<noteq> bidiPipeCh w"
    proof (intro allI impI notI)
      fix k w' assume l: "map_lookup (sess s') k = Some w'" and eq: "bidiPipeCh w' = bidiPipeCh w"
      from l m' have k: "k \<noteq> ID strm" "map_lookup (sess s) k = Some w'"
        by (auto split: if_splits)
      with assms(2) obtain c' pc' where h': "ID (stream w') = k" "est s c' = Some pc'"
        "est_abp pc' = w'" unfolding inv_map_def by blast
      from assms(1) h(2,3) h'(2,3) eq have "c' = c" unfolding inv_est_def by blast
      with h h' have "w' = w" by simp
      with h h' k show False by simp
    qed
    with h e show ?thesis by auto
  qed
qed

lemma inv_ret_moves:
  assumes "inv_est s" and "inv_onc s" and "inv_ret s" and "moves s s'"
  shows "inv_ret s'"
  unfolding inv_ret_def
proof (intro allI impI)
  fix c w p err assume a: "est s' c = Some (E_return w (Some p, err))"
  from ret_origin [OF assms(4) a]
  show "err = None
        \<and> (\<exists>oc strm w'. (onc s' oc = Some (O_sent strm w' p)
                           \<or> onc s' oc = Some (O_return strm (Some p, None)))
                          \<and> ID strm = ID (stream w))
        \<and> (\<forall>k w'. map_lookup (sess s') k = Some w' \<longrightarrow> bidiPipeCh w' \<noteq> bidiPipeCh w)"
  proof (elim disjE conjE exE)
    assume o: "est s c = Some (E_return w (Some p, err))"
    note i = assms(3) [unfolded inv_ret_def, rule_format, OF o]
    from i obtain oc strm w' where h: "err = None"
      "onc s oc = Some (O_sent strm w' p) \<or> onc s oc = Some (O_return strm (Some p, None))"
      "ID strm = ID (stream w)"
      "\<forall>k w'. map_lookup (sess s) k = Some w' \<longrightarrow> bidiPipeCh w' \<noteq> bidiPipeCh w"
      by auto
    from o assms(1) have lt: "bidiPipeCh w < nchan s" unfolding inv_est_def by fastforce
    have "\<forall>k w'. map_lookup (sess s') k = Some w' \<longrightarrow> bidiPipeCh w' \<noteq> bidiPipeCh w"
    proof (intro allI impI)
      fix k w' assume "map_lookup (sess s') k = Some w'"
      from map_lookup_shrinks [OF assms(4) this] h(4) lt
      show "bidiPipeCh w' \<noteq> bidiPipeCh w" by auto
    qed
    with h(1,3) onc_result_kept [OF assms(4) h(2)] show ?thesis by blast
  next
    fix dl oc strm w'
    assume e: "err = None" and c: "est s c = Some (E_select2 w dl)"
      and o: "onc s oc = Some (O_select strm w' p)" and ch: "bidiPipeCh w' = bidiPipeCh w"
      and o': "onc s' oc = Some (O_sent strm w' p)"
      and m: "map_lookup (sess s') = map_lookup (sess s)"
    from o assms(2) obtain c' pc where h: "ID strm = ID (stream w')" "est s c' = Some pc"
      "est_abp pc = w'"
      "\<forall>k v. map_lookup (sess s) k = Some v \<longrightarrow> bidiPipeCh v \<noteq> bidiPipeCh w'"
      unfolding inv_onc_def by blast
    from assms(1) h(2,3) c ch have "c' = c" unfolding inv_est_def by fastforce
    with h c have "w' = w" by auto
    with e h o' m show ?thesis by auto
  qed
qed

lemma inv_pipe_moves:
  assumes "inv_pipe s" and "moves s s'"
  shows "inv_pipe s'"
  using assms(2,1)
proof (cases rule: moves.cases)
  case (m_recv c abp dl oc strm w p)
  then show ?thesis using assms(1)
    unfolding inv_pipe_def by (auto split: if_splits) (fastforce+)?
next
  case (m_onc_none oc strm)
  then show ?thesis using assms(1)
    unfolding inv_pipe_def by (auto split: if_splits) (fastforce+)?
next
  case (m_onc_take oc strm w p)
  then show ?thesis using assms(1)
    unfolding inv_pipe_def by (auto split: if_splits) (fastforce+)?
next
  case (m_onc_done oc strm w p)
  then show ?thesis using assms(1)
    unfolding inv_pipe_def by (auto split: if_splits) (fastforce+)?
next
  case (m_onc_return oc strm w p)
  then show ?thesis using assms(1)
    unfolding inv_pipe_def by (auto split: if_splits) (fastforce+)?
qed (auto simp: inv_pipe_def)

lemma inv_init: "inv (init t0)"
  by (simp add: inv_def inv_est_def inv_map_def inv_onc_def inv_pipe_def inv_ret_def init_def
        map_lookup_def newSessionState_def)

lemma inv_step: "inv s \<Longrightarrow> step a s = Some s' \<Longrightarrow> inv s'"
  unfolding inv_def
  using inv_est_moves inv_map_moves inv_onc_moves inv_pipe_moves inv_ret_moves step_moves
  by blast

lemma inv_run: "inv s \<Longrightarrow> run acts s = Some s' \<Longrightarrow> inv s'"
proof (induction acts arbitrary: s)
  case Nil
  then show ?case by simp
next
  case (Cons a acts)
  from Cons.prems(2) obtain s1 where s1: "step a s = Some s1" "run acts s1 = Some s'"
    by (auto split: option.splits)
  from inv_step [OF Cons.prems(1) s1(1)] have "inv s1" .
  from Cons.IH [OF this s1(2)] show ?case .
qed

text \<open>
  What holds of a non-nil endpoint. In every state that calls of \<open>EstablishBidiPipe\<close>,
  \<open>OnConnect\<close> and \<open>Cancel\<close> can reach from a new session, in any interleaving: if a
  call of \<open>EstablishBidiPipe\<close> has returned a pipe \<open>p\<close>, then it returned no error;
  exactly one call of \<open>OnConnect\<close> holds \<open>p\<close>, that call was made with a stream of the
  same ConnID, and \<open>p\<close> is what it returns (it has sent \<open>p\<close> and has only its deferred
  \<open>close\<close> left, or it has returned \<open>p\<close>); and the WaitSlot of the call is no longer
  in the waiting-map: no entry has its channel.
\<close>

lemma EstablishBidiPipe_endpoint_from_OnConnect:
  assumes "run acts (init t0) = Some s"
    and "est s c = Some (E_return abp (Some p, err))"
  shows "err = None
     \<and> (\<exists>oc strm w.
           (onc s oc = Some (O_sent strm w p) \<or> onc s oc = Some (O_return strm (Some p, None)))
           \<and> ID strm = ID (stream abp)
           \<and> (\<forall>oc' pc. onc s oc' = Some pc \<longrightarrow> onc_pipe pc = Some p \<longrightarrow> oc' = oc))
     \<and> (\<forall>k w. map_lookup (sess s) k = Some w \<longrightarrow> bidiPipeCh w \<noteq> bidiPipeCh abp)
     \<and> (\<forall>k. map_lookup (sess s) k \<noteq> Some abp)"
proof -
  from inv_run [OF inv_init assms(1)] have i: "inv_pipe s" "inv_ret s"
    by (simp_all add: inv_def)
  note r = i(2) [unfolded inv_ret_def, rule_format, OF assms(2)]
  from r obtain oc strm w where h: "err = None"
    "onc s oc = Some (O_sent strm w p) \<or> onc s oc = Some (O_return strm (Some p, None))"
    "ID strm = ID (stream abp)"
    and m: "\<forall>k w. map_lookup (sess s) k = Some w \<longrightarrow> bidiPipeCh w \<noteq> bidiPipeCh abp"
    by auto
  from h(2) obtain pc0 where pc0: "onc s oc = Some pc0" "onc_pipe pc0 = Some p" by auto
  have u: "\<forall>oc' pc. onc s oc' = Some pc \<longrightarrow> onc_pipe pc = Some p \<longrightarrow> oc' = oc"
    using i(1) pc0 unfolding inv_pipe_def by blast
  from m have "\<forall>k. map_lookup (sess s) k \<noteq> Some abp" by auto
  with h m u show ?thesis by blast
qed

text \<open>The happy rendezvous, run from a new session.\<close>

lemma rendezvous_run:
  "\<exists>s. run [Est_begin 0 background strm_ab, Est_select1_send 0, Onc_begin 0 strm_agent,
             Est_select2_recv 0 0, Onc_return 0] (init 0) = Some s
       \<and> est s 0 = Some (E_return abp0 (Some pipe0, None))
       \<and> onc s 0 = Some (O_return strm_agent (Some pipe0, None))
       \<and> map_lookup (sess s) ''ab'' = None
       \<and> panicked s = None"
  by (simp add: step_def init_def newSessionState_def action_defs Let_def strm_ab_def abp0_def
        strm_agent_def pipe0_def mk_DialRequest_def wait_window_def background_def)

lemma EstablishBidiPipe_endpoint_from_OnConnect_example:
  "\<exists>s. run [Est_begin 0 background strm_ab, Est_select1_send 0, Onc_begin 0 strm_agent,
             Est_select2_recv 0 0, Onc_return 0] (init 0) = Some s
       \<and> est s 0 = Some (E_return abp0 (Some pipe0, None))
       \<and> onc s 0 = Some (O_return strm_agent (Some pipe0, None))
       \<and> (\<exists>oc strm w.
             (onc s oc = Some (O_sent strm w pipe0)
              \<or> onc s oc = Some (O_return strm (Some pipe0, None)))
             \<and> ID strm = ID (stream abp0))
       \<and> map_lookup (sess s) ''ab'' \<noteq> Some abp0"
proof -
  from rendezvous_run obtain s where s:
    "run [Est_begin 0 background strm_ab, Est_select1_send 0, Onc_begin 0 strm_agent,
          Est_select2_recv 0 0, Onc_return 0] (init 0) = Some s"
    "est s 0 = Some (E_return abp0 (Some pipe0, None))"
    "onc s 0 = Some (O_return strm_agent (Some pipe0, None))"
    by blast
  from EstablishBidiPipe_endpoint_from_OnConnect [OF s(1,2)] s show ?thesis
    by blast
qed

text \<open>
  C1, evaluated. A call of \<open>EstablishBidiPipe\<close> can complete with no error and yet
  return no endpoint. Call 0 registers ConnID \<open>ab\<close> and hands over its DialRequest; the
  \<open>OnConnect\<close> call with the same ConnID takes the WaitSlot and starts the pipe; the
  session is cancelled; \<open>OnConnect\<close> leaves its select through \<open><-ss.Done()\<close> and
  returns \<open>(nil, Canceled)\<close>, and its deferred \<open>close(abp.bidiPipeCh)\<close> runs. Both
  \<open><-ss.Done()\<close> and \<open><-bidiPipeCh\<close> are then ready in the select of lines 92-99.
  Taking the first returns \<open>(nil, Canceled)\<close>. Taking the second receives the zero value
  of the closed channel and line 98 returns \<open>(nil, nil)\<close>: no error, a nil endpoint, and
  the one pipe that was constructed and started is returned by neither call.
\<close>

theorem EstablishBidiPipe_nil_endpoint_without_error:
  "map_option (\<lambda>s. (est s 0, onc s 0, pipes s, map_lookup (sess s) ''ab'', panicked s))
     (run [Est_begin 0 background strm_ab, Est_select1_send 0, Onc_begin 0 strm_agent,
           Cancel_159, Onc_select_Done 0, Est_select2_recv_closed 0] (init 0))
   = Some (Some (E_return abp0 (None, None)),
           Some (O_return strm_agent (None, Some Canceled)), [pipe0], None, None)
   \<and> map_option (\<lambda>s. (est s 0, onc s 0, pipes s, map_lookup (sess s) ''ab'', panicked s))
     (run [Est_begin 0 background strm_ab, Est_select1_send 0, Onc_begin 0 strm_agent,
           Cancel_159, Onc_select_Done 0, Est_select2_Done 0] (init 0))
   = Some (Some (E_return abp0 (None, Some Canceled)),
           Some (O_return strm_agent (None, Some Canceled)), [pipe0], None, None)"
  by (simp add: step_def init_def newSessionState_def action_defs Let_def strm_ab_def abp0_def
        strm_agent_def pipe0_def mk_DialRequest_def wait_window_def background_def)

end
